theory Spec2Isabelle
  imports Complex_Main "HOL-Library.Word" "HOL-Library.Sublist"
begin

section \<open>DiffViewer: the line diff engine\<close>

text \<open>
  A diff line is one of three tagged variants carrying the line's text; the
  statistics are three counters.
\<close>

datatype DiffLine = Context string | Added string | Removed string

record DiffStats =
  additions :: nat
  deletions :: nat
  modifications :: nat

subsection \<open>computeLCS\<close>

text \<open>
  The table \<open>dp\<close> has \<open>m + 1\<close> rows of \<open>n + 1\<close> zeros. The two nested
  \<open>for\<close> loops run \<open>i\<close> over \<open>1..m\<close> and \<open>j\<close> over \<open>1..n\<close> and write
  \<open>dp[i][j]\<close>.
\<close>

definition dp_init :: "nat \<Rightarrow> nat \<Rightarrow> nat list list" where
  "dp_init m n = replicate (m + 1) (replicate (n + 1) 0)"

definition dp_set :: "nat list list \<Rightarrow> nat \<Rightarrow> nat \<Rightarrow> nat \<Rightarrow> nat list list" where
  "dp_set dp i j v = dp[i := (dp ! i)[j := v]]"

definition lcs_cell :: "string list \<Rightarrow> string list \<Rightarrow> nat \<Rightarrow> nat list list \<Rightarrow> nat \<Rightarrow> nat list list" where
  "lcs_cell a b i dp j =
     (if a ! (i - 1) = b ! (j - 1)
      then dp_set dp i j (dp ! (i - 1) ! (j - 1) + 1)
      else dp_set dp i j (max (dp ! (i - 1) ! j) (dp ! i ! (j - 1))))"

definition lcs_row :: "string list \<Rightarrow> string list \<Rightarrow> nat list list \<Rightarrow> nat \<Rightarrow> nat list list" where
  "lcs_row a b dp i = foldl (lcs_cell a b i) dp [1 ..< length b + 1]"

definition lcs_table :: "string list \<Rightarrow> string list \<Rightarrow> nat list list" where
  "lcs_table a b = foldl (lcs_row a b) (dp_init (length a) (length b)) [1 ..< length a + 1]"

text \<open>
  The reconstruction loop \<open>while (i > 0 && j > 0)\<close>; \<open>lcs.unshift\<close> puts the
  line at the front. The loop is kept as it is written, with an optional result:
  \<open>None\<close> stands for a loop that never ends.
\<close>

partial_function (option) lcs_backtrack ::
  "string list \<Rightarrow> string list \<Rightarrow> nat list list \<Rightarrow> nat \<Rightarrow> nat \<Rightarrow> string list \<Rightarrow> string list option" where
  "lcs_backtrack a b dp i j lcs =
     (if i > 0 \<and> j > 0 then
        (if a ! (i - 1) = b ! (j - 1) then lcs_backtrack a b dp (i - 1) (j - 1) (a ! (i - 1) # lcs)
         else if dp ! (i - 1) ! j > dp ! i ! (j - 1) then lcs_backtrack a b dp (i - 1) j lcs
         else lcs_backtrack a b dp i (j - 1) lcs)
      else Some lcs)"

declare lcs_backtrack.simps [code]

definition computeLCS :: "string list \<Rightarrow> string list \<Rightarrow> string list option" where
  "computeLCS a b = lcs_backtrack a b (lcs_table a b) (length a) (length b) []"

subsection \<open>computeDiff\<close>

text \<open>
  The inner loop of the second branch: \<open>while (i < oldLines.length && oldLines[i] !== lcs[k])\<close>
  pushes a removed line and advances \<open>i\<close>.
\<close>

function skip_removed ::
  "string list \<Rightarrow> string list \<Rightarrow> nat \<Rightarrow> nat \<Rightarrow> DiffLine list \<Rightarrow> nat \<times> DiffLine list" where
  "skip_removed oldLines lcs k i diffLines =
     (if i < length oldLines \<and> oldLines ! i \<noteq> lcs ! k
      then skip_removed oldLines lcs k (i + 1) (diffLines @ [Removed (oldLines ! i)])
      else (i, diffLines))"
  by pat_completeness auto
termination
  by (relation "measure (\<lambda>(oldLines, lcs, k, i, diffLines). length oldLines - i)") auto

declare skip_removed.simps [simp del]

text \<open>
  The last branch of the outer loop holds two independent \<open>if\<close> statements, one
  for a removal and one for an addition.
\<close>

definition rest_removed :: "string list \<Rightarrow> string list \<Rightarrow> nat \<Rightarrow> nat \<Rightarrow> DiffLine list \<Rightarrow> nat \<times> DiffLine list" where
  "rest_removed oldLines lcs k i diffLines =
     (if i < length oldLines \<and> (k \<ge> length lcs \<or> oldLines ! i \<noteq> lcs ! k)
      then (i + 1, diffLines @ [Removed (oldLines ! i)])
      else (i, diffLines))"

definition rest_added :: "string list \<Rightarrow> string list \<Rightarrow> nat \<Rightarrow> nat \<Rightarrow> DiffLine list \<Rightarrow> nat \<times> DiffLine list" where
  "rest_added newLines lcs k j diffLines =
     (if j < length newLines \<and> (k \<ge> length lcs \<or> newLines ! j \<noteq> lcs ! k)
      then (j + 1, diffLines @ [Added (newLines ! j)])
      else (j, diffLines))"

text \<open>
  The outer loop \<open>while (i < oldLines.length || j < newLines.length)\<close>. Nothing in
  its text bounds the number of rounds, so the result is optional: \<open>None\<close> stands
  for a walk that never ends.
\<close>

partial_function (option) diff_loop ::
  "string list \<Rightarrow> string list \<Rightarrow> string list \<Rightarrow> nat \<Rightarrow> nat \<Rightarrow> nat \<Rightarrow> DiffLine list \<Rightarrow> DiffLine list option" where
  "diff_loop oldLines newLines lcs i j k diffLines =
     (if i < length oldLines \<or> j < length newLines then
        (if k < length lcs \<and> i < length oldLines \<and> oldLines ! i = lcs ! k
         then diff_loop oldLines newLines lcs (i + 1) (j + 1) (k + 1) (diffLines @ [Context (oldLines ! i)])
         else if k < length lcs \<and> j < length newLines \<and> newLines ! j = lcs ! k
         then diff_loop oldLines newLines lcs
                (fst (skip_removed oldLines lcs k i diffLines)) j k
                (snd (skip_removed oldLines lcs k i diffLines))
         else diff_loop oldLines newLines lcs
                (fst (rest_removed oldLines lcs k i diffLines))
                (fst (rest_added newLines lcs k j (snd (rest_removed oldLines lcs k i diffLines))))
                k
                (snd (rest_added newLines lcs k j (snd (rest_removed oldLines lcs k i diffLines)))))
      else Some diffLines)"

declare diff_loop.simps [code]

definition computeDiff :: "string list \<Rightarrow> string list \<Rightarrow> DiffLine list option" where
  "computeDiff oldLines newLines =
     (case computeLCS oldLines newLines of
        None \<Rightarrow> None
      | Some lcs \<Rightarrow> diff_loop oldLines newLines lcs 0 0 0 [])"

subsection \<open>computeStats\<close>

text \<open>
  \<open>content.split('\n')\<close>: the pieces between the separators, one more than there
  are separators, so the empty string gives one empty line.
\<close>

fun js_split :: "'a \<Rightarrow> 'a list \<Rightarrow> 'a list list" where
  "js_split sep [] = [[]]"
| "js_split sep (c # cs) =
     (if c = sep then [] # js_split sep cs
      else (case js_split sep cs of
              [] \<Rightarrow> [[c]]
            | l # ls \<Rightarrow> (c # l) # ls))"

definition newline :: char where
  "newline = CHR 0x0A"

definition split_lines :: "string \<Rightarrow> string list" where
  "split_lines s = js_split newline s"

text \<open>
  The content arguments are \<open>string | undefined\<close>; \<open>!content\<close> holds for
  \<open>undefined\<close> and for the empty string.
\<close>

definition falsy :: "string option \<Rightarrow> bool" where
  "falsy c = (case c of None \<Rightarrow> True | Some s \<Rightarrow> s = [])"

text \<open>One round of the counting loop over the diff lines.\<close>

fun count_line :: "nat \<times> nat \<Rightarrow> DiffLine \<Rightarrow> nat \<times> nat" where
  "count_line (adds, dels) (Added c) = (adds + 1, dels)"
| "count_line (adds, dels) (Removed c) = (adds, dels + 1)"
| "count_line (adds, dels) (Context c) = (adds, dels)"

definition computeStats :: "string option \<Rightarrow> string option \<Rightarrow> DiffStats option" where
  "computeStats oldContent newContent =
     (if falsy oldContent \<and> falsy newContent then
        Some \<lparr>additions = 0, deletions = 0, modifications = 0\<rparr>
      else if falsy oldContent then
        Some \<lparr>additions = length (split_lines (the newContent)), deletions = 0, modifications = 0\<rparr>
      else if falsy newContent then
        Some \<lparr>additions = 0, deletions = length (split_lines (the oldContent)), modifications = 0\<rparr>
      else
        (case computeDiff (split_lines (the oldContent)) (split_lines (the newContent)) of
           None \<Rightarrow> None
         | Some diffLines \<Rightarrow>
             (let counts = foldl count_line (0, 0) diffLines;
                  mods = min (fst counts) (snd counts)
              in Some \<lparr>additions = fst counts - mods, deletions = snd counts - mods,
                        modifications = mods\<rparr>)))"

subsection \<open>Reading a diff\<close>

text \<open>
  Applying a diff to the old lines in emitted order: a context line is kept, a
  removed line is dropped, an added line is inserted where it stands. Context and
  removed lines must be the next line of the old text; the result is undefined
  when they are not, or when old lines are left over.
\<close>

fun apply_diff :: "DiffLine list \<Rightarrow> string list \<Rightarrow> string list option" where
  "apply_diff [] [] = Some []"
| "apply_diff [] (x # xs) = None"
| "apply_diff (Added c # ds) xs = map_option ((#) c) (apply_diff ds xs)"
| "apply_diff (Context c # ds) [] = None"
| "apply_diff (Context c # ds) (x # xs) =
     (if x = c then map_option ((#) c) (apply_diff ds xs) else None)"
| "apply_diff (Removed c # ds) [] = None"
| "apply_diff (Removed c # ds) (x # xs) = (if x = c then apply_diff ds xs else None)"

text \<open>The raw counts of added and of removed lines in a diff.\<close>

definition count_added :: "DiffLine list \<Rightarrow> nat" where
  "count_added ds = length (filter (\<lambda>d. case d of Added c \<Rightarrow> True | _ \<Rightarrow> False) ds)"

definition count_removed :: "DiffLine list \<Rightarrow> nat" where
  "count_removed ds = length (filter (\<lambda>d. case d of Removed c \<Rightarrow> True | _ \<Rightarrow> False) ds)"

section \<open>ToolValidation\<close>

text \<open>
  The validated strings are sequences of UTF-16 code units, which is what
  \<open>length\<close>, \<open>trim\<close> and \<open>includes\<close> of the source work on. The messages
  are plain text.
\<close>

type_synonym js_string = "16 word list"

record ValidationResult =
  isValid :: bool
  errorMessage :: "string option"

definition valid :: ValidationResult where
  "valid = \<lparr>isValid = True, errorMessage = None\<rparr>"

definition invalid :: "string \<Rightarrow> ValidationResult" where
  "invalid msg = \<lparr>isValid = False, errorMessage = Some msg\<rparr>"

text \<open>
  \<open>trim\<close> removes white space and line terminators from both ends: the code
  units TAB, LF, VT, FF, CR, SPACE, NBSP, U+1680, U+2000 to U+200A, U+2028, U+2029,
  U+202F, U+205F, U+3000 and U+FEFF.
\<close>

definition js_white_space :: "16 word \<Rightarrow> bool" where
  "js_white_space c =
     (c = 0x09 \<or> c = 0x0A \<or> c = 0x0B \<or> c = 0x0C \<or> c = 0x0D \<or> c = 0x20 \<or> c = 0xA0
      \<or> c = 0x1680 \<or> (0x2000 \<le> c \<and> c \<le> 0x200A) \<or> c = 0x2028 \<or> c = 0x2029
      \<or> c = 0x202F \<or> c = 0x205F \<or> c = 0x3000 \<or> c = 0xFEFF)"

definition js_trim :: "js_string \<Rightarrow> js_string" where
  "js_trim s = rev (dropWhile js_white_space (rev (dropWhile js_white_space s)))"

text \<open>\<open>s.includes(pat)\<close>: the pattern starts at some position of \<open>s\<close>.\<close>

fun js_includes :: "'a list \<Rightarrow> 'a list \<Rightarrow> bool" where
  "js_includes [] pat = (pat = [])"
| "js_includes (c # cs) pat = (prefix pat (c # cs) \<or> js_includes cs pat)"

definition dotdot :: js_string where
  "dotdot = [0x2E, 0x2E]"

text \<open>Decimal rendering of a number inside a template string.\<close>

fun show_nat :: "nat \<Rightarrow> string" where
  "show_nat n =
     (if n < 10 then [char_of (48 + n)]
      else show_nat (n div 10) @ [char_of (48 + n mod 10)])"

declare show_nat.simps [simp del]

definition validatePath :: "js_string \<Rightarrow> ValidationResult" where
  "validatePath path =
     (if path = [] \<or> length (js_trim path) = 0 then
        invalid ''Path cannot be empty or blank''
      else if js_includes path dotdot then
        invalid (''Path traversal not allowed (path contains '' @ [CHR 0x22] @ ''..'' @ [CHR 0x22] @ '')'')
      else valid)"

definition MAX_SIZE :: nat where
  "MAX_SIZE = 1000000"

definition validateContent :: "js_string \<Rightarrow> ValidationResult" where
  "validateContent content =
     (if length content = 0 then invalid ''Content cannot be empty''
      else if length content > MAX_SIZE then
        invalid (''Content exceeds maximum size of '' @ show_nat MAX_SIZE
                 @ '' characters (got '' @ show_nat (length content) @ '')'')
      else valid)"

definition validateCommand :: "js_string \<Rightarrow> ValidationResult" where
  "validateCommand command =
     (if command = [] \<or> length (js_trim command) = 0 then
        invalid ''Command cannot be empty or blank''
      else valid)"

text \<open>The timeout is a number of seconds; the finite numbers are modelled as reals.\<close>

definition validateTimeout :: "real \<Rightarrow> ValidationResult" where
  "validateTimeout timeoutSeconds =
     (if timeoutSeconds \<le> 0 then invalid ''Timeout must be greater than 0''
      else if timeoutSeconds > 600 then
        invalid ''Timeout cannot exceed 600 seconds (10 minutes)''
      else valid)"

subsection \<open>Path segments\<close>

text \<open>
  A path traversal segment is a component of the path, between separators
  (\<open>/\<close> or \<open>\\\<close>), that is exactly \<open>..\<close>.
\<close>

fun split_where :: "('a \<Rightarrow> bool) \<Rightarrow> 'a list \<Rightarrow> 'a list list" where
  "split_where P [] = [[]]"
| "split_where P (c # cs) =
     (if P c then [] # split_where P cs
      else (case split_where P cs of
              [] \<Rightarrow> [[c]]
            | l # ls \<Rightarrow> (c # l) # ls))"

definition path_segments :: "js_string \<Rightarrow> js_string list" where
  "path_segments path = split_where (\<lambda>c. c = 0x2F \<or> c = 0x5C) path"

definition has_traversal_segment :: "js_string \<Rightarrow> bool" where
  "has_traversal_segment path = (dotdot \<in> set (path_segments path))"

definition blank :: "js_string \<Rightarrow> bool" where
  "blank s = list_all js_white_space s"

section \<open>The interactive confirmation gate\<close>

datatype FileWriteConfirmation = approved | rejected | error string

datatype Choice = YES | NO | ALWAYS | DENY | VIEW | IDE | HELP

datatype ApprovalResult = APPROVED | REJECTED | IDE_NOT_AVAILABLE

subsection \<open>InteractiveMenu.parseChoice\<close>

definition to_lower_char :: "char \<Rightarrow> char" where
  "to_lower_char c =
     (if (65::nat) \<le> of_char c \<and> of_char c \<le> (90::nat) then char_of (of_char c + (32::nat)) else c)"

definition toLowerCase :: "string \<Rightarrow> string" where
  "toLowerCase s = map to_lower_char s"

definition parseChoice :: "string \<Rightarrow> Choice option" where
  "parseChoice input =
     (let l = toLowerCase input in
      if l = ''y'' \<or> l = ''yes'' then Some YES
      else if l = ''n'' \<or> l = ''no'' then Some NO
      else if l = ''a'' \<or> l = ''always'' then Some ALWAYS
      else if l = ''d'' \<or> l = ''deny'' then Some DENY
      else if l = ''v'' \<or> l = ''view'' then Some VIEW
      else if l = ''i'' \<or> l = ''ide'' then Some IDE
      else if l = ''?'' \<or> l = ''help'' then Some HELP
      else None)"

subsection \<open>InteractiveConfirmationHandler\<close>

text \<open>
  The handler's mutable fields. The terminal and the IDE are the environment: one
  \<open>prompt\<close> is one round of the menu, holding the text the menu hands to
  \<open>parseChoice\<close> and what the IDE would do if it were asked in that round
  (whether an installation is found, and the verdict of the merge window).
  Printing has no effect on the outcome and is left out.
\<close>

record InteractiveConfirmationHandler =
  alwaysApprove :: bool
  alwaysDeny :: bool
  consecutiveNulls :: nat

definition new_handler :: InteractiveConfirmationHandler where
  "new_handler = \<lparr>alwaysApprove = False, alwaysDeny = False, consecutiveNulls = 0\<rparr>"

definition MAX_CONSECUTIVE_NULLS :: nat where
  "MAX_CONSECUTIVE_NULLS = 3"

record prompt =
  answer :: string
  ideInstalled :: bool
  ideVerdict :: ApprovalResult

definition tryIDEApproval :: "prompt \<Rightarrow> FileWriteConfirmation option" where
  "tryIDEApproval p =
     (if \<not> ideInstalled p then None
      else (case ideVerdict p of
              APPROVED \<Rightarrow> Some approved
            | REJECTED \<Rightarrow> Some rejected
            | IDE_NOT_AVAILABLE \<Rightarrow> None))"

text \<open>
  \<open>getUserChoice\<close> is a \<open>while (true)\<close> loop around one read of the menu. Each
  round consumes one prompt; when the prompts run out the loop is still waiting and
  there is no outcome (\<open>None\<close>). The result is the outcome, the handler after
  the call and the prompts not yet consumed.
\<close>

fun getUserChoice ::
  "InteractiveConfirmationHandler \<Rightarrow> prompt list
   \<Rightarrow> FileWriteConfirmation option \<times> InteractiveConfirmationHandler \<times> prompt list" where
  "getUserChoice h [] = (None, h, [])"
| "getUserChoice h (p # ps) =
     (case parseChoice (answer p) of
        None \<Rightarrow>
          (if consecutiveNulls h + 1 \<ge> MAX_CONSECUTIVE_NULLS
           then (Some rejected, h\<lparr>consecutiveNulls := consecutiveNulls h + 1\<rparr>, ps)
           else getUserChoice (h\<lparr>consecutiveNulls := consecutiveNulls h + 1\<rparr>) ps)
      | Some YES \<Rightarrow> (Some approved, h\<lparr>consecutiveNulls := 0\<rparr>, ps)
      | Some NO \<Rightarrow> (Some rejected, h\<lparr>consecutiveNulls := 0\<rparr>, ps)
      | Some ALWAYS \<Rightarrow> (Some approved, h\<lparr>consecutiveNulls := 0, alwaysApprove := True\<rparr>, ps)
      | Some DENY \<Rightarrow> (Some rejected, h\<lparr>consecutiveNulls := 0, alwaysDeny := True\<rparr>, ps)
      | Some VIEW \<Rightarrow> getUserChoice (h\<lparr>consecutiveNulls := 0\<rparr>) ps
      | Some IDE \<Rightarrow>
          (case tryIDEApproval p of
             Some ideResult \<Rightarrow> (Some ideResult, h\<lparr>consecutiveNulls := 0\<rparr>, ps)
           | None \<Rightarrow> getUserChoice (h\<lparr>consecutiveNulls := 0\<rparr>) ps)
      | Some HELP \<Rightarrow> getUserChoice (h\<lparr>consecutiveNulls := 0\<rparr>) ps)"

fun getUserChoiceForCommand ::
  "InteractiveConfirmationHandler \<Rightarrow> prompt list
   \<Rightarrow> FileWriteConfirmation option \<times> InteractiveConfirmationHandler \<times> prompt list" where
  "getUserChoiceForCommand h [] = (None, h, [])"
| "getUserChoiceForCommand h (p # ps) =
     (case parseChoice (answer p) of
        None \<Rightarrow> getUserChoiceForCommand h ps
      | Some YES \<Rightarrow> (Some approved, h, ps)
      | Some NO \<Rightarrow> (Some rejected, h, ps)
      | Some ALWAYS \<Rightarrow> (Some approved, h\<lparr>alwaysApprove := True\<rparr>, ps)
      | Some DENY \<Rightarrow> (Some rejected, h\<lparr>alwaysDeny := True\<rparr>, ps)
      | Some HELP \<Rightarrow> getUserChoiceForCommand h ps
      | Some _ \<Rightarrow> getUserChoiceForCommand h ps)"

text \<open>The two entry points; \<open>isTTY\<close> is \<open>process.stdin.isTTY\<close> at the call.\<close>

definition requestFileWriteConfirmation ::
  "bool \<Rightarrow> InteractiveConfirmationHandler \<Rightarrow> prompt list
   \<Rightarrow> FileWriteConfirmation option \<times> InteractiveConfirmationHandler \<times> prompt list" where
  "requestFileWriteConfirmation isTTY h ps =
     (if alwaysDeny h then (Some rejected, h, ps)
      else if alwaysApprove h then (Some approved, h, ps)
      else if \<not> isTTY then (Some approved, h, ps)
      else getUserChoice h ps)"

definition requestShellCommandConfirmation ::
  "bool \<Rightarrow> InteractiveConfirmationHandler \<Rightarrow> prompt list
   \<Rightarrow> FileWriteConfirmation option \<times> InteractiveConfirmationHandler \<times> prompt list" where
  "requestShellCommandConfirmation isTTY h ps =
     (if alwaysDeny h then (Some rejected, h, ps)
      else if alwaysApprove h then (Some approved, h, ps)
      else if \<not> isTTY then (Some approved, h, ps)
      else getUserChoiceForCommand h ps)"

subsection \<open>A handler instance serving a sequence of calls\<close>

text \<open>
  The calls made on one handler instance, one after the other, each with the
  \<open>isTTY\<close> flag of its moment. A call that is still waiting for input stops the
  sequence.
\<close>

datatype request = FileWrite bool | ShellCommand bool




section \<open>MCP tool discovery\<close>

subsection \<open>Protocol data\<close>

text \<open>
  The body of an HTTP response is whatever JSON the server sent. Nothing in the
  client checks its shape, so it is kept as a JSON value: \<open>null\<close>, a boolean,
  a number, a string, an array, or an object given by its properties. A value
  that may be \<open>undefined\<close> is optional, \<open>None\<close> standing for \<open>undefined\<close>.
\<close>

datatype json =
    JNull
  | JBool bool
  | JNum real
  | JStr string
  | JArr "json list"
  | JObj "(string \<times> json) list"

text \<open>
  The errors that can be raised during a discovery: the \<open>McpException\<close>s of
  \<open>sendRequest\<close> (built from the response's error value, for a missing
  result, for an HTTP error with its message and status, or wrapping any other
  error by its message or a type error), and a type error raised outside
  \<open>sendRequest\<close> by reading a property of \<open>undefined\<close> or \<open>null\<close> or by
  calling \<open>map\<close> on a value that has none.
\<close>

datatype mcp_error =
    RpcError json
  | NoResult
  | HttpError string "int option"
  | Wrapped string
  | WrappedTypeError
  | TypeError

text \<open>
  Reading a property \<open>v.name\<close>, for the property names the client reads
  (\<open>error\<close>, \<open>result\<close>, \<open>tools\<close>, \<open>serverInfo\<close>, \<open>name\<close>,
  \<open>version\<close>, \<open>description\<close>, \<open>inputSchema\<close>): a type error on
  \<open>undefined\<close> and \<open>null\<close>, the property of an object if it has it, and
  \<open>undefined\<close> otherwise.
\<close>

fun js_get :: "json option \<Rightarrow> string \<Rightarrow> mcp_error + json option" where
  "js_get None name = Inl TypeError"
| "js_get (Some JNull) name = Inl TypeError"
| "js_get (Some (JObj props)) name = Inr (map_of props name)"
| "js_get (Some v) name = Inr None"

text \<open>Whether a value counts as true in a condition.\<close>

fun truthy :: "json option \<Rightarrow> bool" where
  "truthy None = False"
| "truthy (Some JNull) = False"
| "truthy (Some (JBool b)) = b"
| "truthy (Some (JNum n)) = (n \<noteq> 0)"
| "truthy (Some (JStr s)) = (s \<noteq> [])"
| "truthy (Some (JArr vs)) = True"
| "truthy (Some (JObj props)) = True"

text \<open>
  What one HTTP exchange can do. A GET either fails or answers with a status. A
  POST of a JSON-RPC request fails with an HTTP error (message and, when there
  was a response, its status), fails otherwise, or answers with a body.
\<close>

datatype get_outcome = GetFailed | GetStatus nat

datatype post_outcome =
    AxiosError string "int option"
  | OtherError string
  | Response json

datatype rpc_method = initialize_method | tools_list_method | tools_call_method

record JsonRpcRequest =
  req_id :: nat
  req_method :: rpc_method

text \<open>
  The network: the answer to a GET of a URL and the answer to a POST of a
  request. Every exchange made is written to a log, in order.
\<close>

record network =
  http_get :: "string \<Rightarrow> get_outcome"
  http_post :: "JsonRpcRequest \<Rightarrow> post_outcome"

datatype exchange = Get string | Post JsonRpcRequest

record McpClient =
  serverUrl :: string
  requestId :: nat

definition new_McpClient :: "string \<Rightarrow> McpClient" where
  "new_McpClient url = \<lparr>serverUrl = url, requestId = 0\<rparr>"

subsection \<open>McpClient\<close>

text \<open>\<open>s.replace(pat, by)\<close> with a string pattern replaces the first occurrence.\<close>

fun js_replace :: "string \<Rightarrow> string \<Rightarrow> string \<Rightarrow> string" where
  "js_replace [] pat by = (if pat = [] then by else [])"
| "js_replace (c # cs) pat by =
     (if prefix pat (c # cs) then by @ drop (length pat) (c # cs)
      else c # js_replace cs pat by)"

definition isServerAvailable :: "network \<Rightarrow> McpClient \<Rightarrow> bool \<times> exchange list" where
  "isServerAvailable net client =
     (let healthUrl = js_replace (serverUrl client) ''/mcp'' ''/health'' in
      (case http_get net healthUrl of
         GetStatus status \<Rightarrow> (status = 200, [Get healthUrl])
       | GetFailed \<Rightarrow> (False, [Get healthUrl])))"

text \<open>
  \<open>sendRequest\<close>: a truthy \<open>error\<close> of the body raises, a \<open>result\<close> that is
  \<open>undefined\<close> raises, and any other result, \<open>null\<close> included, is returned
  as it is. A type error while reading the body is caught and wrapped.
\<close>

definition sendRequest :: "post_outcome \<Rightarrow> mcp_error + json" where
  "sendRequest outcome =
     (case outcome of
        AxiosError msg status \<Rightarrow> Inl (HttpError (''HTTP error: '' @ msg) status)
      | OtherError msg \<Rightarrow> Inl (Wrapped msg)
      | Response data \<Rightarrow>
          (case js_get (Some data) ''error'' of
             Inl e \<Rightarrow> Inl WrappedTypeError
           | Inr None \<Rightarrow>
               (case js_get (Some data) ''result'' of
                  Inl e \<Rightarrow> Inl WrappedTypeError
                | Inr None \<Rightarrow> Inl NoResult
                | Inr (Some r) \<Rightarrow> Inr r)
           | Inr (Some err) \<Rightarrow>
               (if truthy (Some err) then Inl (RpcError err)
                else (case js_get (Some data) ''result'' of
                        Inl e \<Rightarrow> Inl WrappedTypeError
                      | Inr None \<Rightarrow> Inl NoResult
                      | Inr (Some r) \<Rightarrow> Inr r))))"

definition nextId :: "McpClient \<Rightarrow> nat \<times> McpClient" where
  "nextId client = (requestId client + 1, client\<lparr>requestId := requestId client + 1\<rparr>)"

definition initialize ::
  "network \<Rightarrow> McpClient \<Rightarrow> (mcp_error + json) \<times> McpClient \<times> exchange list" where
  "initialize net client =
     (let (i, client') = nextId client;
          request = \<lparr>req_id = i, req_method = initialize_method\<rparr>
      in (sendRequest (http_post net request), client', [Post request]))"

text \<open>\<open>listTools\<close> returns \<open>response.tools\<close>, whatever it is.\<close>

definition listTools ::
  "network \<Rightarrow> McpClient \<Rightarrow> (mcp_error + json option) \<times> McpClient \<times> exchange list" where
  "listTools net client =
     (let (i, client') = nextId client;
          request = \<lparr>req_id = i, req_method = tools_list_method\<rparr>
      in (case sendRequest (http_post net request) of
            Inl e \<Rightarrow> (Inl e, client', [Post request])
          | Inr response \<Rightarrow> (js_get (Some response) ''tools'', client', [Post request])))"

subsection \<open>McpToolDiscovery.discoverTools\<close>

text \<open>
  An adapted tool keeps what the constructor reads from the remote descriptor,
  \<open>name\<close>, \<open>description\<close> and \<open>inputSchema\<close>, and the client.
\<close>

datatype McpToolAdapter = McpToolAdapter "json option" "json option" "json option" McpClient

definition new_McpToolAdapter :: "McpClient \<Rightarrow> json \<Rightarrow> mcp_error + McpToolAdapter" where
  "new_McpToolAdapter client mcpTool =
     (case js_get (Some mcpTool) ''name'' of
        Inl e \<Rightarrow> Inl e
      | Inr n \<Rightarrow>
          (case js_get (Some mcpTool) ''description'' of
             Inl e \<Rightarrow> Inl e
           | Inr d \<Rightarrow>
               (case js_get (Some mcpTool) ''inputSchema'' of
                  Inl e \<Rightarrow> Inl e
                | Inr s \<Rightarrow> Inr (McpToolAdapter n d s client))))"

text \<open>\<open>xs.map(f)\<close> where \<open>f\<close> may raise: the first error ends it.\<close>

fun map_raising :: "('a \<Rightarrow> 'e + 'b) \<Rightarrow> 'a list \<Rightarrow> 'e + 'b list" where
  "map_raising f [] = Inr []"
| "map_raising f (x # xs) =
     (case f x of
        Inl e \<Rightarrow> Inl e
      | Inr y \<Rightarrow> (case map_raising f xs of Inl e \<Rightarrow> Inl e | Inr ys \<Rightarrow> Inr (y # ys)))"

text \<open>\<open>mcpTools.map(f)\<close>: only an array has \<open>map\<close>.\<close>

definition map_tools :: "(json \<Rightarrow> mcp_error + 'b) \<Rightarrow> json option \<Rightarrow> mcp_error + 'b list" where
  "map_tools f mcpTools =
     (case mcpTools of
        Some (JArr ts) \<Rightarrow> map_raising f ts
      | _ \<Rightarrow> Inl TypeError)"

text \<open>
  The two printing statements that read the results under \<open>verbose\<close>:
  \<open>initResult.serverInfo.name\<close> and \<open>.version\<close>, and \<open>mcpTools.length\<close>
  with \<open>mcpTools.map(t => t.name)\<close>. What they print is left out; that they can
  raise is not.
\<close>

definition print_initialized :: "json \<Rightarrow> mcp_error + unit" where
  "print_initialized initResult =
     (case js_get (Some initResult) ''serverInfo'' of
        Inl e \<Rightarrow> Inl e
      | Inr info \<Rightarrow>
          (case js_get info ''name'' of
             Inl e \<Rightarrow> Inl e
           | Inr n \<Rightarrow> (case js_get info ''version'' of Inl e \<Rightarrow> Inl e | Inr v \<Rightarrow> Inr ())))"

definition print_discovered :: "json option \<Rightarrow> mcp_error + unit" where
  "print_discovered mcpTools =
     (case map_tools (\<lambda>t. js_get (Some t) ''name'') mcpTools of
        Inl e \<Rightarrow> Inl e
      | Inr names \<Rightarrow> Inr ())"

text \<open>
  The body of the \<open>try\<close> block: a raised error is \<open>Inl\<close>. The \<open>catch\<close>
  block of \<open>discoverTools\<close> turns every raised error into the empty list. The
  result of \<open>discoverTools\<close> is again a sum, so that "it does not raise" is a
  statement about its value.
\<close>

definition discover_body ::
  "network \<Rightarrow> string \<Rightarrow> bool \<Rightarrow> (mcp_error + McpToolAdapter list) \<times> exchange list" where
  "discover_body net url verbose =
     (let client = new_McpClient url;
          (available, log1) = isServerAvailable net client
      in if \<not> available then (Inr [], log1)
         else (case initialize net client of
                 (Inl e, client1, log2) \<Rightarrow> (Inl e, log1 @ log2)
               | (Inr initResult, client1, log2) \<Rightarrow>
                   (case (if verbose then print_initialized initResult else Inr ()) of
                      Inl e \<Rightarrow> (Inl e, log1 @ log2)
                    | Inr u \<Rightarrow>
                        (case listTools net client1 of
                           (Inl e, client2, log3) \<Rightarrow> (Inl e, log1 @ log2 @ log3)
                         | (Inr mcpTools, client2, log3) \<Rightarrow>
                             (case (if verbose then print_discovered mcpTools else Inr ()) of
                                Inl e \<Rightarrow> (Inl e, log1 @ log2 @ log3)
                              | Inr u' \<Rightarrow>
                                  (case map_tools (new_McpToolAdapter client2) mcpTools of
                                     Inl e \<Rightarrow> (Inl e, log1 @ log2 @ log3)
                                   | Inr tools \<Rightarrow> (Inr tools, log1 @ log2 @ log3)))))))"

definition discoverTools ::
  "network \<Rightarrow> string \<Rightarrow> bool \<Rightarrow> (mcp_error + McpToolAdapter list) \<times> exchange list" where
  "discoverTools net url verbose =
     (case discover_body net url verbose of
        (Inl e, made) \<Rightarrow> (Inr [], made)
      | (Inr tools, made) \<Rightarrow> (Inr tools, made))"

subsection \<open>Stages of a discovery\<close>

text \<open>
  The URL of the availability probe, the two requests a discovery sends (the
  client numbers its requests from 1), and the failures the client detects: the
  probe fails unless it answers with status 200; a request fails when the POST
  fails, when the body is \<open>null\<close>, when the body has a truthy \<open>error\<close>, and
  when the body has no \<open>result\<close>.
\<close>

definition healthUrl :: "string \<Rightarrow> string" where
  "healthUrl url = js_replace url ''/mcp'' ''/health''"

definition init_request :: JsonRpcRequest where
  "init_request = \<lparr>req_id = 1, req_method = initialize_method\<rparr>"

definition list_request :: JsonRpcRequest where
  "list_request = \<lparr>req_id = 2, req_method = tools_list_method\<rparr>"

definition probe_ok :: "network \<Rightarrow> string \<Rightarrow> bool" where
  "probe_ok net url = (http_get net (healthUrl url) = GetStatus 200)"

fun failed :: "post_outcome \<Rightarrow> bool" where
  "failed (AxiosError msg status) = True"
| "failed (OtherError msg) = True"
| "failed (Response JNull) = True"
| "failed (Response (JObj props)) = (truthy (map_of props ''error'') \<or> map_of props ''result'' = None)"
| "failed (Response v) = True"

text \<open>
  Four networks. In the first nothing answers. In the second the server answers
  the handshake with a body that has no result. In the third the handshake's
  result is \<open>null\<close> and the list of tools holds an empty object. In the fourth
  the handshake is as the protocol says and the list of tools is not an array.
\<close>

definition tools_body :: "json \<Rightarrow> json" where
  "tools_body ts = JObj [(''jsonrpc'', JStr ''2.0''), (''result'', JObj [(''tools'', ts)])]"

definition dead_network :: network where
  "dead_network =
     \<lparr>http_get = (\<lambda>u. GetFailed),
      http_post = (\<lambda>r. AxiosError ''connect ECONNREFUSED'' None)\<rparr>"

definition broken_network :: network where
  "broken_network =
     \<lparr>http_get = (\<lambda>u. GetStatus 200),
      http_post = (\<lambda>r. if req_method r = initialize_method
                       then Response (JObj [(''jsonrpc'', JStr ''2.0'')])
                       else Response (tools_body (JArr [JObj [(''name'', JStr ''search'')]])))\<rparr>"

definition sloppy_network :: network where
  "sloppy_network =
     \<lparr>http_get = (\<lambda>u. GetStatus 200),
      http_post = (\<lambda>r. if req_method r = initialize_method
                       then Response (JObj [(''jsonrpc'', JStr ''2.0''), (''result'', JNull)])
                       else Response (tools_body (JArr [JObj []])))\<rparr>"

definition garbled_network :: network where
  "garbled_network =
     \<lparr>http_get = (\<lambda>u. GetStatus 200),
      http_post = (\<lambda>r. if req_method r = initialize_method
                       then Response (JObj [(''result'',
                              JObj [(''serverInfo'', JObj [(''name'', JStr ''s''), (''version'', JStr ''1'')])])])
                       else Response (tools_body (JStr ''none'')))\<rparr>"

section \<open>AIAgent: the orchestration loop\<close>

subsection \<open>Conversation data\<close>

datatype role = system | user | assistant | tool

record ToolCall =
  call_id :: string
  function_name :: string
  function_arguments :: string

record Message =
  msg_role :: role
  content :: string
  tool_calls :: "ToolCall list option"
  tool_call_id :: "string option"

text \<open>
  A tool's \<open>execute\<close> works on the outside world \<open>'w\<close> (files, processes, the
  terminal, remote servers) and either returns a text or raises; a raised error is
  \<open>Inl\<close> of its text as \<open>error.message\<close> or \<open>String(error)\<close> gives it.
\<close>

record ('a, 'w) Tool =
  tool_name :: string
  execute :: "'a \<Rightarrow> 'w \<Rightarrow> (string + string) \<times> 'w"

text \<open>
  The completion service answers a request with a completion or fails. A
  completion may hold no message (\<open>choices[0]?.message\<close> undefined); a
  message has an optional text and an optional list of tool calls.
\<close>

datatype completion =
    ServiceFailure string
  | NoMessage
  | AssistantMessage "string option" "ToolCall list option"

text \<open>
  The agent: its configuration with the default applied, the tool map, and the
  collaborators it calls (the completion service and \<open>JSON.parse\<close>, whose
  \<open>Inl\<close> is the text of the syntax error).
\<close>

record ('a, 'w) AIAgent =
  maxIterations :: int
  toolMap :: "string \<Rightarrow> ('a, 'w) Tool option"
  create_completion :: "Message list \<Rightarrow> 'w \<Rightarrow> completion \<times> 'w"
  json_parse :: "string \<Rightarrow> string + 'a"

record 'w agent_state =
  messages :: "Message list"
  world :: 'w

subsection \<open>The constructor\<close>

text \<open>
  \<open>config.maxIterations || 20\<close>: an absent or zero value gives 20. The tool
  map is filled in list order, a later tool replacing an earlier one of the same
  name. The conversation starts with the system prompt.
\<close>

definition build_toolMap :: "('a, 'w) Tool list \<Rightarrow> (string \<Rightarrow> ('a, 'w) Tool option)" where
  "build_toolMap tools = foldl (\<lambda>m t. m(tool_name t \<mapsto> t)) Map.empty tools"

definition new_AIAgent ::
  "int option \<Rightarrow> ('a, 'w) Tool list \<Rightarrow> (Message list \<Rightarrow> 'w \<Rightarrow> completion \<times> 'w)
   \<Rightarrow> (string \<Rightarrow> string + 'a) \<Rightarrow> ('a, 'w) AIAgent" where
  "new_AIAgent maxIterationsOpt tools service parse =
     \<lparr>maxIterations = (case maxIterationsOpt of None \<Rightarrow> 20 | Some n \<Rightarrow> if n = 0 then 20 else n),
      toolMap = build_toolMap tools,
      create_completion = service,
      json_parse = parse\<rparr>"

definition initial_state :: "string \<Rightarrow> 'w \<Rightarrow> 'w agent_state" where
  "initial_state systemPrompt w =
     \<lparr>messages = [\<lparr>msg_role = system, content = systemPrompt, tool_calls = None, tool_call_id = None\<rparr>],
      world = w\<rparr>"

subsection \<open>executeToolCalls\<close>

definition user_message :: "string \<Rightarrow> Message" where
  "user_message text = \<lparr>msg_role = user, content = text, tool_calls = None, tool_call_id = None\<rparr>"

definition or_empty :: "string option \<Rightarrow> string" where
  "or_empty c = (case c of None \<Rightarrow> [] | Some t \<Rightarrow> t)"

definition assistant_message :: "string option \<Rightarrow> ToolCall list option \<Rightarrow> Message" where
  "assistant_message text calls =
     \<lparr>msg_role = assistant, content = or_empty text, tool_calls = calls, tool_call_id = None\<rparr>"

definition tool_message :: "string \<Rightarrow> string \<Rightarrow> Message" where
  "tool_message cid text =
     \<lparr>msg_role = tool, content = text, tool_calls = None, tool_call_id = Some cid\<rparr>"

definition push :: "Message \<Rightarrow> 'w agent_state \<Rightarrow> 'w agent_state" where
  "push m st = st\<lparr>messages := messages st @ [m]\<rparr>"

text \<open>One round of the \<open>for\<close> loop over the tool calls.\<close>

definition execute_call :: "('a, 'w) AIAgent \<Rightarrow> 'w agent_state \<Rightarrow> ToolCall \<Rightarrow> 'w agent_state" where
  "execute_call agent st toolCall =
     (case toolMap agent (function_name toolCall) of
        None \<Rightarrow>
          push (tool_message (call_id toolCall)
                  (''ERROR: Tool '' @ [CHR 0x27] @ function_name toolCall @ [CHR 0x27] @ '' not found'')) st
      | Some t \<Rightarrow>
          (case json_parse agent (function_arguments toolCall) of
             Inl errorText \<Rightarrow> push (tool_message (call_id toolCall) (''ERROR: '' @ errorText)) st
           | Inr args \<Rightarrow>
               (case execute t args (world st) of
                  (Inr result, w') \<Rightarrow>
                    push (tool_message (call_id toolCall) result) (st\<lparr>world := w'\<rparr>)
                | (Inl errorText, w') \<Rightarrow>
                    push (tool_message (call_id toolCall) (''ERROR: '' @ errorText)) (st\<lparr>world := w'\<rparr>))))"

definition executeToolCalls ::
  "('a, 'w) AIAgent \<Rightarrow> ToolCall list \<Rightarrow> 'w agent_state \<Rightarrow> 'w agent_state" where
  "executeToolCalls agent toolCalls st = foldl (execute_call agent) st toolCalls"

subsection \<open>run\<close>

datatype run_error =
    MaxIterationsReached int
  | NoMessageInCompletion
  | CompletionFailed string

text \<open>
  The body of one iteration of the \<open>while\<close> loop, after the counter has been
  incremented: it ends the run with a text or an error, or continues.
\<close>

datatype 'w step = Continue "'w agent_state" | Return string "'w agent_state" | Throw run_error "'w agent_state"

definition iteration :: "('a, 'w) AIAgent \<Rightarrow> 'w agent_state \<Rightarrow> 'w step" where
  "iteration agent st =
     (case create_completion agent (messages st) (world st) of
        (ServiceFailure e, w') \<Rightarrow> Throw (CompletionFailed e) (st\<lparr>world := w'\<rparr>)
      | (NoMessage, w') \<Rightarrow> Throw NoMessageInCompletion (st\<lparr>world := w'\<rparr>)
      | (AssistantMessage text calls, w') \<Rightarrow>
          (let st1 = push (assistant_message text calls) (st\<lparr>world := w'\<rparr>)
           in (case calls of
                 Some (c # cs) \<Rightarrow> Continue (executeToolCalls agent (c # cs) st1)
               | _ \<Rightarrow> Return (or_empty text) st1)))"

function run_loop ::
  "('a, 'w) AIAgent \<Rightarrow> int \<Rightarrow> 'w agent_state \<Rightarrow> (run_error + string) \<times> 'w agent_state" where
  "run_loop agent iterations st =
     (if iterations < maxIterations agent then
        (case iteration agent st of
           Continue st' \<Rightarrow> run_loop agent (iterations + 1) st'
         | Return text st' \<Rightarrow> (Inr text, st')
         | Throw e st' \<Rightarrow> (Inl e, st'))
      else (Inl (MaxIterationsReached (maxIterations agent)), st))"
  by pat_completeness auto
termination
  by (relation "measure (\<lambda>(agent, iterations, st). nat (maxIterations agent - iterations))") auto

declare run_loop.simps [simp del]

definition run ::
  "('a, 'w) AIAgent \<Rightarrow> string \<Rightarrow> 'w agent_state \<Rightarrow> (run_error + string) \<times> 'w agent_state" where
  "run agent userInput st =
     run_loop agent 0 (push (user_message userInput) st)"

subsection \<open>Rounds of the loop\<close>

text \<open>
  The state after \<open>n\<close> iterations that all dispatched tool calls, if the first
  \<open>n\<close> iterations do; and whether an assistant message carries no tool call
  (the list is absent or empty).
\<close>

fun after_rounds :: "('a, 'w) AIAgent \<Rightarrow> nat \<Rightarrow> 'w agent_state \<Rightarrow> 'w agent_state option" where
  "after_rounds agent 0 st = Some st"
| "after_rounds agent (Suc n) st =
     (case iteration agent st of
        Continue st' \<Rightarrow> after_rounds agent n st'
      | _ \<Rightarrow> None)"

definition no_calls :: "ToolCall list option \<Rightarrow> bool" where
  "no_calls calls = (case calls of Some (c # cs) \<Rightarrow> False | _ \<Rightarrow> True)"

subsection \<open>Example agents\<close>

text \<open>
  An agent with two tools, one that returns its argument and one that raises. Its
  completion service first asks for three tool calls, the second of them to a
  tool that is not registered, and then answers. The world is a counter of the
  calls made. The second agent's service returns completions without a message.
\<close>

definition example_calls :: "ToolCall list" where
  "example_calls =
     [\<lparr>call_id = ''c1'', function_name = ''echo'', function_arguments = ''x''\<rparr>,
      \<lparr>call_id = ''c2'', function_name = ''foo'', function_arguments = ''y''\<rparr>,
      \<lparr>call_id = ''c3'', function_name = ''boom'', function_arguments = ''z''\<rparr>]"

definition example_tools :: "(string, nat) Tool list" where
  "example_tools =
     [\<lparr>tool_name = ''echo'', execute = (\<lambda>a w. (Inr a, w + 1))\<rparr>,
      \<lparr>tool_name = ''boom'', execute = (\<lambda>a w. (Inl ''disk full'', w + 1))\<rparr>]"

definition example_service :: "Message list \<Rightarrow> nat \<Rightarrow> completion \<times> nat" where
  "example_service ms w =
     (if w = 0 then (AssistantMessage None (Some example_calls), 1)
      else (AssistantMessage (Some ''done'') None, w + 1))"

definition example_agent :: "(string, nat) AIAgent" where
  "example_agent = new_AIAgent (Some 3) example_tools example_service Inr"

definition silent_agent :: "(string, nat) AIAgent" where
  "silent_agent = new_AIAgent None [] (\<lambda>ms w. (NoMessage, w + 1)) Inr"

text \<open>A third agent, limited to two iterations, whose service asks for tool calls every time.\<close>

definition busy_agent :: "(string, nat) AIAgent" where
  "busy_agent =
     new_AIAgent (Some 2) example_tools
       (\<lambda>ms w. (AssistantMessage None (Some example_calls), w + 1)) Inr"

section \<open>Properties of the diff engine\<close>

subsection \<open>The LCS is a subsequence of the old lines, and both loops end\<close>

lemma lcs_backtrack_returns:
  "i \<le> length a \<Longrightarrow> \<exists>r. lcs_backtrack a b dp i j acc = Some (r @ acc) \<and> subseq r (take i a)"
proof (induction "i + j" arbitrary: i j acc rule: less_induct)
  case less
  show ?case
  proof (cases "i > 0 \<and> j > 0")
    case False
    then show ?thesis by (auto simp: lcs_backtrack.simps [of a b dp i j acc])
  next
    case pos: True
    then have tk: "take i a = take (i - 1) a @ [a ! (i - 1)]"
      using less.prems by (metis Suc_pred' Suc_le_lessD take_Suc_conv_app_nth)
    have le': "i - 1 \<le> length a" using less.prems by simp
    show ?thesis
    proof (cases "a ! (i - 1) = b ! (j - 1)")
      case True
      have "(i - 1) + (j - 1) < i + j" using pos by arith
      from less.hyps [OF this le', of "a ! (i - 1) # acc"]
      obtain r where r: "lcs_backtrack a b dp (i - 1) (j - 1) (a ! (i - 1) # acc) = Some (r @ a ! (i - 1) # acc)"
        and s: "subseq r (take (i - 1) a)" by blast
      have "subseq (r @ [a ! (i - 1)]) (take i a)"
        unfolding tk using s by (simp add: list_emb_append_mono)
      with r pos True show ?thesis
        by (simp add: lcs_backtrack.simps [of a b dp i j acc])
    next
      case ne: False
      show ?thesis
      proof (cases "dp ! (i - 1) ! j > dp ! i ! (j - 1)")
        case True
        have "(i - 1) + j < i + j" using pos by arith
        from less.hyps [OF this le', of acc]
        obtain r where r: "lcs_backtrack a b dp (i - 1) j acc = Some (r @ acc)"
          and s: "subseq r (take (i - 1) a)" by blast
        have "subseq r (take i a)"
          unfolding tk using s by (rule subseq_rev_drop_many)
        with r pos ne True show ?thesis
          by (simp add: lcs_backtrack.simps [of a b dp i j acc])
      next
        case False
        have "i + (j - 1) < i + j" using pos by arith
        from less.hyps [OF this less.prems, of acc]
        show ?thesis using pos ne False
          by (simp add: lcs_backtrack.simps [of a b dp i j acc])
      qed
    qed
  qed
qed

lemma computeLCS_returns: "\<exists>l. computeLCS a b = Some l \<and> subseq l a"
  using lcs_backtrack_returns [of "length a" a b "lcs_table a b" "length b" "[]"]
  by (auto simp: computeLCS_def)

text \<open>
  The invariant of the walk: the part of the LCS not yet matched is a subsequence
  of the old lines not yet read. It holds at the start, every branch keeps it, and
  under it every round reads at least one old or new line.
\<close>

lemma drop_inv_nonempty:
  assumes "subseq (drop k lcs) (drop i oldLines)" and "k < length lcs"
  shows "i < length oldLines"
proof (rule ccontr)
  assume "\<not> i < length oldLines"
  then have "drop i oldLines = []" by simp
  with assms(1) have "subseq (drop k lcs) []" by simp
  then have "drop k lcs = []" by (rule list_emb_Nil2)
  with assms(2) show False by simp
qed

lemma drop_inv_match:
  assumes "subseq (drop k lcs) (drop i oldLines)" and "k < length lcs"
    and "i < length oldLines" and "oldLines ! i = lcs ! k"
  shows "subseq (drop (Suc k) lcs) (drop (Suc i) oldLines)"
proof -
  have "subseq (lcs ! k # drop (Suc k) lcs) (oldLines ! i # drop (Suc i) oldLines)"
    using assms(1-3) by (simp add: Cons_nth_drop_Suc)
  with assms(4) show ?thesis by simp
qed

lemma drop_inv_skip:
  assumes "subseq (drop k lcs) (drop i oldLines)"
    and "i < length oldLines" and "k \<ge> length lcs \<or> oldLines ! i \<noteq> lcs ! k"
  shows "subseq (drop k lcs) (drop (Suc i) oldLines)"
proof (cases "k < length lcs")
  case False
  then show ?thesis by simp
next
  case True
  then have "subseq (lcs ! k # drop (Suc k) lcs) (oldLines ! i # drop (Suc i) oldLines)"
    using assms(1,2) by (simp add: Cons_nth_drop_Suc)
  moreover have "lcs ! k \<noteq> oldLines ! i" using assms(3) True by auto
  ultimately have "subseq (lcs ! k # drop (Suc k) lcs) (drop (Suc i) oldLines)" by simp
  then show ?thesis using True by (simp add: Cons_nth_drop_Suc)
qed

lemma skip_removed_inv:
  assumes "subseq (drop k lcs) (drop i oldLines)" and "k < length lcs"
  shows "subseq (drop k lcs) (drop (fst (skip_removed oldLines lcs k i d)) oldLines)
         \<and> i \<le> fst (skip_removed oldLines lcs k i d)
         \<and> fst (skip_removed oldLines lcs k i d) < length oldLines"
  using assms
proof (induction oldLines lcs k i d rule: skip_removed.induct)
  case (1 oldLines lcs k i diffLines)
  have il: "i < length oldLines" using "1.prems" by (rule drop_inv_nonempty)
  show ?case
  proof (cases "oldLines ! i \<noteq> lcs ! k")
    case True
    have "subseq (drop k lcs) (drop (i + 1) oldLines)"
      using drop_inv_skip [OF "1.prems"(1) il] True by simp
    from "1.IH" [OF _ this "1.prems"(2)] il True show ?thesis
      by (simp add: skip_removed.simps [of oldLines lcs k i diffLines])
  next
    case False
    with il "1.prems" show ?thesis
      by (simp add: skip_removed.simps [of oldLines lcs k i diffLines])
  qed
qed

lemma skip_removed_progress:
  "i < length oldLines \<Longrightarrow> oldLines ! i \<noteq> lcs ! k \<Longrightarrow> i < fst (skip_removed oldLines lcs k i d)"
proof -
  assume a: "i < length oldLines" "oldLines ! i \<noteq> lcs ! k"
  have mono: "\<And>i d. i \<le> fst (skip_removed oldLines lcs k i d)"
  proof -
    fix i d show "i \<le> fst (skip_removed oldLines lcs k i d)"
    proof (induction oldLines lcs k i d rule: skip_removed.induct)
      case (1 oldLines lcs k i diffLines)
      then show ?case
        by (cases "i < length oldLines \<and> oldLines ! i \<noteq> lcs ! k")
          (auto simp: skip_removed.simps [of oldLines lcs k i diffLines])
    qed
  qed
  from a mono [of "i + 1" "d @ [Removed (oldLines ! i)]"] show ?thesis
    by (simp add: skip_removed.simps [of oldLines lcs k i d])
qed

lemma diff_loop_returns:
  "subseq (drop k lcs) (drop i oldLines) \<Longrightarrow> \<exists>r. diff_loop oldLines newLines lcs i j k d = Some r"
proof (induction "(length oldLines - i) + (length newLines - j)" arbitrary: i j k d rule: less_induct)
  case less
  note inv = less.prems
  show ?case
  proof (cases "i < length oldLines \<or> j < length newLines")
    case False
    then show ?thesis by (simp add: diff_loop.simps [of oldLines newLines lcs i j k d])
  next
    case run: True
    show ?thesis
    proof (cases "k < length lcs \<and> i < length oldLines \<and> oldLines ! i = lcs ! k")
      case True
      then have "subseq (drop (k + 1) lcs) (drop (i + 1) oldLines)"
        using drop_inv_match [OF inv] by simp
      from less.hyps [OF _ this, of "j + 1" "d @ [Context (oldLines ! i)]"] True
      obtain r where "diff_loop oldLines newLines lcs (i + 1) (j + 1) (k + 1) (d @ [Context (oldLines ! i)]) = Some r"
        by force
      with run True show ?thesis
        by (simp add: diff_loop.simps [of oldLines newLines lcs i j k d])
    next
      case b1: False
      show ?thesis
      proof (cases "k < length lcs \<and> j < length newLines \<and> newLines ! j = lcs ! k")
        case True
        then have kl: "k < length lcs" by simp
        have il: "i < length oldLines" using inv kl by (rule drop_inv_nonempty)
        with b1 kl have ne: "oldLines ! i \<noteq> lcs ! k" by simp
        let ?i = "fst (skip_removed oldLines lcs k i d)"
        let ?d = "snd (skip_removed oldLines lcs k i d)"
        have inv': "subseq (drop k lcs) (drop ?i oldLines)" and le: "?i < length oldLines"
          using skip_removed_inv [OF inv kl, of d] by simp_all
        have "i < ?i" using il ne by (rule skip_removed_progress)
        with le have "(length oldLines - ?i) + (length newLines - j) < (length oldLines - i) + (length newLines - j)"
          by arith
        from less.hyps [OF this inv', of ?d]
        obtain r where "diff_loop oldLines newLines lcs ?i j k ?d = Some r" by blast
        with run ne True show ?thesis
          by (auto simp: diff_loop.simps [of oldLines newLines lcs i j k d])
      next
        case b2: False
        let ?i = "fst (rest_removed oldLines lcs k i d)"
        let ?d1 = "snd (rest_removed oldLines lcs k i d)"
        let ?j = "fst (rest_added newLines lcs k j ?d1)"
        let ?d2 = "snd (rest_added newLines lcs k j ?d1)"
        have jle: "j \<le> ?j" by (simp add: rest_added_def)
        have inv': "subseq (drop k lcs) (drop ?i oldLines)"
          using inv drop_inv_skip [OF inv] by (auto simp: rest_removed_def)
        have dec: "(length oldLines - ?i) + (length newLines - ?j) < (length oldLines - i) + (length newLines - j)"
        proof (cases "i < length oldLines")
          case True
          with b1 have "?i = i + 1" by (auto simp: rest_removed_def)
          with True jle show ?thesis by arith
        next
          case False
          with run have jl: "j < length newLines" by simp
          have "\<not> k < length lcs" using drop_inv_nonempty [OF inv] False by blast
          with jl have "?j = j + 1" by (simp add: rest_added_def)
          moreover have "?i = i" using False by (simp add: rest_removed_def)
          ultimately show ?thesis using jl by arith
        qed
        from less.hyps [OF dec inv', of ?d2]
        obtain r where "diff_loop oldLines newLines lcs ?i ?j k ?d2 = Some r" by blast
        with run b1 b2 show ?thesis
          by (auto simp: diff_loop.simps [of oldLines newLines lcs i j k d])
      qed
    qed
  qed
qed

lemma computeDiff_returns: "\<exists>d. computeDiff oldLines newLines = Some d"
proof -
  obtain l where l: "computeLCS oldLines newLines = Some l" and s: "subseq l oldLines"
    using computeLCS_returns by blast
  from s have "subseq (drop 0 l) (drop 0 oldLines)" by simp
  from diff_loop_returns [OF this] l show ?thesis
    by (simp add: computeDiff_def)
qed

lemma count_line_foldl:
  "foldl count_line (x, y) ds = (x + count_added ds, y + count_removed ds)"
  by (induction ds arbitrary: x y rule: rev_induct)
     (auto simp: count_added_def count_removed_def split: DiffLine.splits)


text \<open>
  C10: \<open>computeLCS\<close> and \<open>computeDiff\<close> return for every pair of line
  sequences: the reconstruction loop of \<open>computeLCS\<close> and the alignment walk of
  \<open>computeDiff\<close> both end with a result, whatever the lines are (repeated,
  none at all, or none in common).
\<close>

theorem computeLCS_computeDiff_total:
  "(\<exists>l. computeLCS a b = Some l) \<and> (\<exists>d. computeDiff a b = Some d)"
  using computeLCS_returns [of a b] computeDiff_returns [of a b] by blast

theorem computeLCS_computeDiff_total_witness:
  "(\<exists>l. computeLCS [''a'', ''a''] [] = Some l) \<and> (\<exists>d. computeDiff [''a'', ''a''] [] = Some d)"
  using computeLCS_computeDiff_total [of "[''a'', ''a'']" "[]"] by simp

text \<open>
  C1: the round trip fails. For the old lines \<open>a\<close> and the new lines \<open>x, a\<close>
  the diff is "context a, added a": the first branch of the walk takes the old line
  as common without looking at the new line, so the new line \<open>x\<close> is passed over.
  Applied to the old lines the diff gives \<open>a, a\<close>, not \<open>x, a\<close>.
\<close>

theorem computeDiff_round_trip_fails:
  "computeDiff [''a''] [''x'', ''a''] = Some [Context ''a'', Added ''a'']
   \<and> apply_diff [Context ''a'', Added ''a''] [''a''] = Some [''a'', ''a'']
   \<and> apply_diff [Context ''a'', Added ''a''] [''a''] \<noteq> Some [''x'', ''a'']"
  by code_simp

subsection \<open>Statistics\<close>

text \<open>
  C7, as the code has it: for two non-empty texts the modifications are the
  minimum of the raw counts of added and removed lines of the diff, and the
  additions and deletions are the raw counts less the modifications. With an old
  text that is absent or empty and a non-empty new text every new line is an
  addition and the other two counters are zero, and symmetrically; with both
  absent or empty all three are zero. The two scenarios give 0, 0, 1 and 2, 0, 0.
\<close>

theorem computeStats_pairs_modifications:
  "(\<not> falsy oldContent \<and> \<not> falsy newContent \<longrightarrow>
      (\<exists>d. computeDiff (split_lines (the oldContent)) (split_lines (the newContent)) = Some d
         \<and> computeStats oldContent newContent =
             Some \<lparr>additions = count_added d - min (count_added d) (count_removed d),
                   deletions = count_removed d - min (count_added d) (count_removed d),
                   modifications = min (count_added d) (count_removed d)\<rparr>))
   \<and> (falsy oldContent \<and> \<not> falsy newContent \<longrightarrow>
        computeStats oldContent newContent =
          Some \<lparr>additions = length (split_lines (the newContent)), deletions = 0, modifications = 0\<rparr>)
   \<and> (\<not> falsy oldContent \<and> falsy newContent \<longrightarrow>
        computeStats oldContent newContent =
          Some \<lparr>additions = 0, deletions = length (split_lines (the oldContent)), modifications = 0\<rparr>)
   \<and> (falsy oldContent \<and> falsy newContent \<longrightarrow>
        computeStats oldContent newContent = Some \<lparr>additions = 0, deletions = 0, modifications = 0\<rparr>)
   \<and> computeStats (Some ''a\<newline>b\<newline>c'') (Some ''a\<newline>x\<newline>c'')
        = Some \<lparr>additions = 0, deletions = 0, modifications = 1\<rparr>
   \<and> computeStats None (Some ''line1\<newline>line2'')
        = Some \<lparr>additions = 2, deletions = 0, modifications = 0\<rparr>"
proof -
  have present: "\<not> falsy oldContent \<and> \<not> falsy newContent \<longrightarrow>
      (\<exists>d. computeDiff (split_lines (the oldContent)) (split_lines (the newContent)) = Some d
         \<and> computeStats oldContent newContent =
             Some \<lparr>additions = count_added d - min (count_added d) (count_removed d),
                   deletions = count_removed d - min (count_added d) (count_removed d),
                   modifications = min (count_added d) (count_removed d)\<rparr>)"
  proof
    assume p: "\<not> falsy oldContent \<and> \<not> falsy newContent"
    obtain d where d: "computeDiff (split_lines (the oldContent)) (split_lines (the newContent)) = Some d"
      using computeDiff_returns by blast
    have "foldl count_line (0, 0) d = (count_added d, count_removed d)"
      using count_line_foldl [of 0 0 d] by simp
    with p d show "\<exists>d. computeDiff (split_lines (the oldContent)) (split_lines (the newContent)) = Some d
         \<and> computeStats oldContent newContent =
             Some \<lparr>additions = count_added d - min (count_added d) (count_removed d),
                   deletions = count_removed d - min (count_added d) (count_removed d),
                   modifications = min (count_added d) (count_removed d)\<rparr>"
      by (simp add: computeStats_def Let_def)
  qed
  have s1: "computeStats (Some ''a\<newline>b\<newline>c'') (Some ''a\<newline>x\<newline>c'')
        = Some \<lparr>additions = 0, deletions = 0, modifications = 1\<rparr>"
    by code_simp
  have s2: "computeStats None (Some ''line1\<newline>line2'')
        = Some \<lparr>additions = 2, deletions = 0, modifications = 0\<rparr>"
    by code_simp
  show ?thesis
    using present s1 s2 by (simp add: computeStats_def)
qed

theorem computeStats_pairs_modifications_witness:
  "\<not> falsy (Some ''p'') \<and> \<not> falsy (Some ''q'') \<and> falsy None \<and> falsy (Some [])
   \<and> (\<exists>d. computeDiff (split_lines ''p'') (split_lines ''q'') = Some d
         \<and> computeStats (Some ''p'') (Some ''q'') =
             Some \<lparr>additions = count_added d - min (count_added d) (count_removed d),
                   deletions = count_removed d - min (count_added d) (count_removed d),
                   modifications = min (count_added d) (count_removed d)\<rparr>)
   \<and> computeStats (Some []) (Some ''q'') =
        Some \<lparr>additions = length (split_lines ''q''), deletions = 0, modifications = 0\<rparr>
   \<and> computeStats (Some ''p'') None =
        Some \<lparr>additions = 0, deletions = length (split_lines ''p''), modifications = 0\<rparr>
   \<and> computeStats None (Some []) = Some \<lparr>additions = 0, deletions = 0, modifications = 0\<rparr>"
proof -
  have f: "\<not> falsy (Some ''p'')" "\<not> falsy (Some ''q'')" "falsy None" "falsy (Some [])"
    by (simp_all add: falsy_def)
  show ?thesis
    using f computeStats_pairs_modifications [of "Some ''p''" "Some ''q''"]
      computeStats_pairs_modifications [of "Some []" "Some ''q''"]
      computeStats_pairs_modifications [of "Some ''p''" None]
      computeStats_pairs_modifications [of None "Some []"]
    by simp
qed

text \<open>
  The claim as stated fails on the empty text, which the code treats as absent.
  For the empty old text and the new text \<open>q\<close> the diff removes the one empty
  line and adds \<open>q\<close>, so the minimum of the raw counts is 1, but the statistics
  report one addition and no modification. For an absent old text and the empty
  new text, which has one line, they report no addition.
\<close>

theorem computeStats_empty_text_counterexample:
  "computeDiff (split_lines []) (split_lines ''q'') = Some [Removed [], Added ''q'']
   \<and> min (count_added [Removed [], Added ''q'']) (count_removed [Removed [], Added ''q'']) = 1
   \<and> computeStats (Some []) (Some ''q'') = Some \<lparr>additions = 1, deletions = 0, modifications = 0\<rparr>
   \<and> length (split_lines []) = 1
   \<and> computeStats None (Some []) = Some \<lparr>additions = 0, deletions = 0, modifications = 0\<rparr>"
  by code_simp


section \<open>Properties of the interactive gate\<close>

text \<open>One round of the file-write menu, for an invalid and for a valid input.\<close>

lemma getUserChoice_invalid:
  "parseChoice (answer p) = None \<Longrightarrow>
   getUserChoice h (p # ps) =
     (if 2 \<le> consecutiveNulls h
      then (Some rejected, h\<lparr>consecutiveNulls := consecutiveNulls h + 1\<rparr>, ps)
      else getUserChoice (h\<lparr>consecutiveNulls := consecutiveNulls h + 1\<rparr>) ps)"
  by (auto simp: MAX_CONSECUTIVE_NULLS_def)

lemma getUserChoice_valid:
  "parseChoice (answer p) = Some c \<Longrightarrow>
   getUserChoice h (p # ps) =
     (case c of
        YES \<Rightarrow> (Some approved, h\<lparr>consecutiveNulls := 0\<rparr>, ps)
      | NO \<Rightarrow> (Some rejected, h\<lparr>consecutiveNulls := 0\<rparr>, ps)
      | ALWAYS \<Rightarrow> (Some approved, h\<lparr>consecutiveNulls := 0, alwaysApprove := True\<rparr>, ps)
      | DENY \<Rightarrow> (Some rejected, h\<lparr>consecutiveNulls := 0, alwaysDeny := True\<rparr>, ps)
      | IDE \<Rightarrow> (case tryIDEApproval p of
                  Some r \<Rightarrow> (Some r, h\<lparr>consecutiveNulls := 0\<rparr>, ps)
                | None \<Rightarrow> getUserChoice (h\<lparr>consecutiveNulls := 0\<rparr>) ps)
      | _ \<Rightarrow> getUserChoice (h\<lparr>consecutiveNulls := 0\<rparr>) ps)"
  by (cases c) simp_all

lemma getUserChoice_three_invalid:
  assumes "consecutiveNulls h = 0"
    and "parseChoice (answer p1) = None" "parseChoice (answer p2) = None" "parseChoice (answer p3) = None"
  shows "getUserChoice h (p1 # p2 # p3 # ps) = (Some rejected, h\<lparr>consecutiveNulls := 3\<rparr>, ps)"
  using assms by (simp add: MAX_CONSECUTIVE_NULLS_def)

text \<open>
  The shell-command path has no counter: an invalid input only shows the menu
  again, the counter is never written, and a sequence of invalid inputs of any
  length ends without an outcome.
\<close>

lemma getUserChoiceForCommand_invalid:
  "parseChoice (answer p) = None \<Longrightarrow> getUserChoiceForCommand h (p # ps) = getUserChoiceForCommand h ps"
  by simp

lemma getUserChoiceForCommand_counter:
  "consecutiveNulls (fst (snd (getUserChoiceForCommand h ps))) = consecutiveNulls h"
  by (induction h ps rule: getUserChoiceForCommand.induct)
     (auto split: option.splits Choice.splits)

lemma getUserChoiceForCommand_all_invalid:
  "list_all (\<lambda>p. parseChoice (answer p) = None) ps \<Longrightarrow> getUserChoiceForCommand h ps = (None, h, [])"
  by (induction ps) auto











text \<open>
  C5, as the code has it: on the file-write path an unparseable input that arrives
  when two invalid inputs have already been counted forces the outcome Rejected
  without reading further; an earlier one is counted and the menu is shown again.
  So, from a counter of zero, the third of three consecutive invalid inputs
  forces Rejected, also through \<open>requestFileWriteConfirmation\<close>. Any valid input
  sets the counter to zero before the choice is acted on.
\<close>

theorem file_write_invalid_input_limit:
  "(parseChoice (answer p) = None \<and> 2 \<le> consecutiveNulls h \<longrightarrow>
      fst (getUserChoice h (p # ps)) = Some rejected \<and> snd (snd (getUserChoice h (p # ps))) = ps)
   \<and> (parseChoice (answer p) = None \<and> consecutiveNulls h < 2 \<longrightarrow>
        getUserChoice h (p # ps) = getUserChoice (h\<lparr>consecutiveNulls := consecutiveNulls h + 1\<rparr>) ps)
   \<and> (consecutiveNulls h = 0 \<and> \<not> alwaysDeny h \<and> \<not> alwaysApprove h
        \<and> parseChoice (answer pa) = None \<and> parseChoice (answer pb) = None
        \<and> parseChoice (answer pc) = None \<longrightarrow>
        fst (requestFileWriteConfirmation True h (pa # pb # pc # ps)) = Some rejected
        \<and> snd (snd (requestFileWriteConfirmation True h (pa # pb # pc # ps))) = ps)
   \<and> (parseChoice (answer p) = Some c \<longrightarrow>
        getUserChoice h (p # ps) =
          (case c of
             YES \<Rightarrow> (Some approved, h\<lparr>consecutiveNulls := 0\<rparr>, ps)
           | NO \<Rightarrow> (Some rejected, h\<lparr>consecutiveNulls := 0\<rparr>, ps)
           | ALWAYS \<Rightarrow> (Some approved, h\<lparr>consecutiveNulls := 0, alwaysApprove := True\<rparr>, ps)
           | DENY \<Rightarrow> (Some rejected, h\<lparr>consecutiveNulls := 0, alwaysDeny := True\<rparr>, ps)
           | IDE \<Rightarrow> (case tryIDEApproval p of
                       Some r \<Rightarrow> (Some r, h\<lparr>consecutiveNulls := 0\<rparr>, ps)
                     | None \<Rightarrow> getUserChoice (h\<lparr>consecutiveNulls := 0\<rparr>) ps)
           | _ \<Rightarrow> getUserChoice (h\<lparr>consecutiveNulls := 0\<rparr>) ps))"
proof -
  have three: "consecutiveNulls h = 0 \<and> \<not> alwaysDeny h \<and> \<not> alwaysApprove h
        \<and> parseChoice (answer pa) = None \<and> parseChoice (answer pb) = None
        \<and> parseChoice (answer pc) = None \<longrightarrow>
        fst (requestFileWriteConfirmation True h (pa # pb # pc # ps)) = Some rejected
        \<and> snd (snd (requestFileWriteConfirmation True h (pa # pb # pc # ps))) = ps"
    using getUserChoice_three_invalid [of h pa pb pc ps]
    by (simp add: requestFileWriteConfirmation_def)
  show ?thesis
    using three getUserChoice_invalid [of p h ps] getUserChoice_valid [of p c h ps]
    by simp
qed

theorem file_write_invalid_input_limit_witness:
  "parseChoice ''what'' = None \<and> parseChoice ''Y'' = Some YES
   \<and> fst (getUserChoice (new_handler\<lparr>consecutiveNulls := 2\<rparr>)
        [\<lparr>answer = ''what'', ideInstalled = False, ideVerdict = REJECTED\<rparr>]) = Some rejected
   \<and> getUserChoice new_handler [\<lparr>answer = ''what'', ideInstalled = False, ideVerdict = REJECTED\<rparr>]
       = getUserChoice (new_handler\<lparr>consecutiveNulls := consecutiveNulls new_handler + 1\<rparr>) []
   \<and> fst (requestFileWriteConfirmation True new_handler
        [\<lparr>answer = ''what'', ideInstalled = False, ideVerdict = REJECTED\<rparr>,
         \<lparr>answer = ''what'', ideInstalled = False, ideVerdict = REJECTED\<rparr>,
         \<lparr>answer = ''what'', ideInstalled = False, ideVerdict = REJECTED\<rparr>,
         \<lparr>answer = ''Y'', ideInstalled = False, ideVerdict = REJECTED\<rparr>]) = Some rejected
   \<and> getUserChoice (new_handler\<lparr>consecutiveNulls := 2\<rparr>)
        [\<lparr>answer = ''Y'', ideInstalled = False, ideVerdict = REJECTED\<rparr>]
       = (Some approved, new_handler\<lparr>consecutiveNulls := 2, consecutiveNulls := 0\<rparr>, [])"
proof -
  have a: "parseChoice ''what'' = None" and b: "parseChoice ''Y'' = Some YES"
    by code_simp+
  show ?thesis
    using a b
      file_write_invalid_input_limit
        [where p = "\<lparr>answer = ''Y'', ideInstalled = False, ideVerdict = REJECTED\<rparr>"
           and h = "new_handler\<lparr>consecutiveNulls := 2\<rparr>" and ps = "[]" and c = YES]
      file_write_invalid_input_limit
        [where p = "\<lparr>answer = ''what'', ideInstalled = False, ideVerdict = REJECTED\<rparr>"
           and h = "new_handler\<lparr>consecutiveNulls := 2\<rparr>" and ps = "[]"]
      file_write_invalid_input_limit
        [where p = "\<lparr>answer = ''what'', ideInstalled = False, ideVerdict = REJECTED\<rparr>"
           and h = new_handler and ps = "[]"
           and pa = "\<lparr>answer = ''what'', ideInstalled = False, ideVerdict = REJECTED\<rparr>"
           and pb = "\<lparr>answer = ''what'', ideInstalled = False, ideVerdict = REJECTED\<rparr>"
           and pc = "\<lparr>answer = ''what'', ideInstalled = False, ideVerdict = REJECTED\<rparr>"]
      file_write_invalid_input_limit
        [where h = new_handler
           and pa = "\<lparr>answer = ''what'', ideInstalled = False, ideVerdict = REJECTED\<rparr>"
           and pb = "\<lparr>answer = ''what'', ideInstalled = False, ideVerdict = REJECTED\<rparr>"
           and pc = "\<lparr>answer = ''what'', ideInstalled = False, ideVerdict = REJECTED\<rparr>"
           and ps = "[\<lparr>answer = ''Y'', ideInstalled = False, ideVerdict = REJECTED\<rparr>]"]
    by (simp add: new_handler_def)
qed

text \<open>
  The claim as stated fails twice. On the shell-command path three invalid inputs
  force nothing: the fourth input, a yes, is still read and approves. On the
  file-write path the forced rejection leaves the counter at three, not at zero.
\<close>

theorem invalid_input_limit_counterexample:
  "fst (requestShellCommandConfirmation True new_handler
        [\<lparr>answer = ''what'', ideInstalled = False, ideVerdict = REJECTED\<rparr>,
         \<lparr>answer = ''what'', ideInstalled = False, ideVerdict = REJECTED\<rparr>,
         \<lparr>answer = ''what'', ideInstalled = False, ideVerdict = REJECTED\<rparr>,
         \<lparr>answer = ''y'', ideInstalled = False, ideVerdict = REJECTED\<rparr>]) = Some approved
   \<and> requestFileWriteConfirmation True new_handler
        [\<lparr>answer = ''what'', ideInstalled = False, ideVerdict = REJECTED\<rparr>,
         \<lparr>answer = ''what'', ideInstalled = False, ideVerdict = REJECTED\<rparr>,
         \<lparr>answer = ''what'', ideInstalled = False, ideVerdict = REJECTED\<rparr>]
      = (Some rejected, \<lparr>alwaysApprove = False, alwaysDeny = False, consecutiveNulls = 3\<rparr>, [])"
  by code_simp




section \<open>Properties of the validation predicates\<close>

text \<open>
  Trimming leaves nothing exactly when every code unit is white space;
  \<open>includes\<close> is the sublist relation; a segment of a path is a sublist of it.
\<close>

lemma js_trim_empty: "js_trim s = [] \<longleftrightarrow> blank s"
proof -
  have inner: "dropWhile js_white_space (rev (dropWhile js_white_space s)) = []
        \<longleftrightarrow> dropWhile js_white_space s = []"
  proof
    assume a: "dropWhile js_white_space (rev (dropWhile js_white_space s)) = []"
    show "dropWhile js_white_space s = []"
    proof (rule ccontr)
      assume n: "dropWhile js_white_space s \<noteq> []"
      then have "\<not> js_white_space (hd (dropWhile js_white_space s))" by (rule hd_dropWhile)
      moreover have "hd (dropWhile js_white_space s) \<in> set (rev (dropWhile js_white_space s))"
        using n by simp
      ultimately show False using a by (auto simp: dropWhile_eq_Nil_conv)
    qed
  next
    assume e: "dropWhile js_white_space s = []"
    show "dropWhile js_white_space (rev (dropWhile js_white_space s)) = []"
      unfolding e by simp
  qed
  have "js_trim s = [] \<longleftrightarrow> dropWhile js_white_space (rev (dropWhile js_white_space s)) = []"
    by (simp add: js_trim_def)
  also have "\<dots> \<longleftrightarrow> dropWhile js_white_space s = []" by (rule inner)
  also have "\<dots> \<longleftrightarrow> (\<forall>x\<in>set s. js_white_space x)" by (rule dropWhile_eq_Nil_conv)
  also have "\<dots> \<longleftrightarrow> blank s" by (simp add: blank_def list_all_iff)
  finally show ?thesis .
qed

lemma js_includes_sublist: "js_includes s pat \<longleftrightarrow> sublist pat s"
  by (induction s) (auto simp: sublist_Cons_right)

lemma split_where_nonempty: "split_where P s \<noteq> []"
  by (induction s) (auto split: list.splits)

lemma split_where_sublist: "x \<in> set (split_where P s) \<Longrightarrow> sublist x s"
proof (induction s arbitrary: x)
  case Nil
  then show ?case by simp
next
  case (Cons c cs)
  show ?case
  proof (cases "P c")
    case True
    with Cons show ?thesis by (auto simp: sublist_Cons_right)
  next
    case False
    obtain l ls where sp: "split_where P cs = l # ls"
      using split_where_nonempty [of P cs] by (cases "split_where P cs") auto
    from Cons.prems False sp have "x = c # l \<or> x \<in> set ls" by simp
    then show ?thesis
    proof
      assume x: "x = c # l"
      have "prefix l cs"
        using sp
      proof (induction cs arbitrary: l ls)
        case Nil
        then show ?case by simp
      next
        case (Cons d ds)
        then show ?case
          by (cases "P d") (auto split: list.splits)
      qed
      then have "prefix x (c # cs)" using x by simp
      then show ?thesis by (simp add: sublist_Cons_right)
    next
      assume "x \<in> set ls"
      then have "sublist x cs" using Cons.IH sp by simp
      then show ?thesis by (simp add: sublist_Cons_right)
    qed
  qed
qed

lemma traversal_segment_dotdot: "has_traversal_segment p \<Longrightarrow> sublist dotdot p"
  unfolding has_traversal_segment_def path_segments_def by (rule split_where_sublist)

lemma blank_Nil: "blank []" by (simp add: blank_def)

text \<open>
  C9, as the code has it: \<open>validatePath\<close> rejects exactly the empty or blank
  paths and the paths that contain two consecutive dots anywhere, which covers
  every path with a \<open>..\<close> segment; \<open>validateContent\<close> rejects exactly
  the empty content and content longer than 1,000,000 code units;
  \<open>validateCommand\<close> rejects exactly the empty or blank commands;
  \<open>validateTimeout\<close> rejects exactly the values that are at most 0 or above
  600.
\<close>

theorem validation_decides:
  "(isValid (validatePath path) \<longleftrightarrow> \<not> blank path \<and> \<not> sublist dotdot path)
   \<and> (has_traversal_segment path \<longrightarrow> \<not> isValid (validatePath path))
   \<and> (isValid (validateContent body) \<longleftrightarrow> body \<noteq> [] \<and> length body \<le> 1000000)
   \<and> (isValid (validateCommand cmd) \<longleftrightarrow> \<not> blank cmd)
   \<and> (isValid (validateTimeout t) \<longleftrightarrow> \<not> (t \<le> 0 \<or> t > 600))"
proof -
  have p: "isValid (validatePath path) \<longleftrightarrow> \<not> blank path \<and> \<not> sublist dotdot path"
    using blank_Nil
    by (auto simp: validatePath_def js_trim_empty js_includes_sublist valid_def invalid_def)
  have c: "isValid (validateContent body) \<longleftrightarrow> body \<noteq> [] \<and> length body \<le> 1000000"
    by (auto simp: validateContent_def MAX_SIZE_def valid_def invalid_def)
  have m: "isValid (validateCommand cmd) \<longleftrightarrow> \<not> blank cmd"
    using blank_Nil
    by (auto simp: validateCommand_def js_trim_empty valid_def invalid_def)
  have t: "isValid (validateTimeout t) \<longleftrightarrow> \<not> (t \<le> 0 \<or> t > 600)"
    by (auto simp: validateTimeout_def valid_def invalid_def)
  from p c m t traversal_segment_dotdot [of path] show ?thesis by blast
qed

theorem validation_decides_witness:
  "has_traversal_segment [0x61, 0x2F, 0x2E, 0x2E, 0x2F, 0x62]
   \<and> \<not> isValid (validatePath [0x61, 0x2F, 0x2E, 0x2E, 0x2F, 0x62])
   \<and> isValid (validateTimeout 30)"
proof -
  have a: "has_traversal_segment [0x61, 0x2F, 0x2E, 0x2E, 0x2F, 0x62]" by code_simp
  have b: "\<not> ((30::real) \<le> 0 \<or> (30::real) > 600)" by simp
  from a b validation_decides [of "[0x61, 0x2F, 0x2E, 0x2E, 0x2F, 0x62]" "[]" "[]" 30]
  show ?thesis by blast
qed

text \<open>
  The claim as stated fails for \<open>validatePath\<close>: the path \<open>a..b\<close> is not
  blank and has no \<open>..\<close> segment, and it is rejected.
\<close>

theorem validatePath_counterexample:
  "\<not> (isValid (validatePath [0x61, 0x2E, 0x2E, 0x62])
       \<longleftrightarrow> \<not> (blank [0x61, 0x2E, 0x2E, 0x62] \<or> has_traversal_segment [0x61, 0x2E, 0x2E, 0x62]))"
  by code_simp


section \<open>Properties of tool discovery\<close>

text \<open>
  A request fails, in the sense of \<open>failed\<close>, exactly when \<open>sendRequest\<close>
  raises. The discovery is then read off stage by stage.
\<close>

lemma sendRequest_failed: "failed outcome \<longleftrightarrow> (\<exists>e. sendRequest outcome = Inl e)"
proof (cases outcome)
  case (AxiosError msg status)
  then show ?thesis by (simp add: sendRequest_def)
next
  case (OtherError msg)
  then show ?thesis by (simp add: sendRequest_def)
next
  case (Response data)
  then show ?thesis
    by (cases data) (auto simp: sendRequest_def split: option.splits)
qed

lemma isServerAvailable_eq:
  "isServerAvailable net (new_McpClient url) = (probe_ok net url, [Get (healthUrl url)])"
  by (auto simp: isServerAvailable_def new_McpClient_def probe_ok_def healthUrl_def Let_def
           split: get_outcome.splits)

lemma initialize_eq:
  "initialize net (new_McpClient url)
     = (sendRequest (http_post net init_request), \<lparr>serverUrl = url, requestId = Suc 0\<rparr>, [Post init_request])"
  by (simp add: initialize_def nextId_def new_McpClient_def init_request_def Let_def)

lemma listTools_eq:
  "listTools net \<lparr>serverUrl = url, requestId = Suc 0\<rparr>
     = ((case sendRequest (http_post net list_request) of
           Inl e \<Rightarrow> Inl e
         | Inr response \<Rightarrow> js_get (Some response) ''tools''),
        \<lparr>serverUrl = url, requestId = 2\<rparr>, [Post list_request])"
  by (simp add: listTools_def nextId_def list_request_def Let_def numeral_2_eq_2 split: sum.splits)

lemma discover_body_eq:
  "discover_body net url verbose =
     (if \<not> probe_ok net url then (Inr [], [Get (healthUrl url)])
      else (case sendRequest (http_post net init_request) of
              Inl e \<Rightarrow> (Inl e, [Get (healthUrl url), Post init_request])
            | Inr initResult \<Rightarrow>
                (case (if verbose then print_initialized initResult else Inr ()) of
                   Inl e \<Rightarrow> (Inl e, [Get (healthUrl url), Post init_request])
                 | Inr u \<Rightarrow>
                     (case (case sendRequest (http_post net list_request) of
                              Inl e \<Rightarrow> Inl e
                            | Inr response \<Rightarrow> js_get (Some response) ''tools'') of
                        Inl e \<Rightarrow> (Inl e, [Get (healthUrl url), Post init_request, Post list_request])
                      | Inr mcpTools \<Rightarrow>
                          (case (if verbose then print_discovered mcpTools else Inr ()) of
                             Inl e \<Rightarrow> (Inl e, [Get (healthUrl url), Post init_request, Post list_request])
                           | Inr u' \<Rightarrow>
                               (case map_tools (new_McpToolAdapter \<lparr>serverUrl = url, requestId = 2\<rparr>) mcpTools of
                                  Inl e \<Rightarrow> (Inl e, [Get (healthUrl url), Post init_request, Post list_request])
                                | Inr tools \<Rightarrow>
                                    (Inr tools, [Get (healthUrl url), Post init_request, Post list_request])))))))"
  unfolding discover_body_def Let_def isServerAvailable_eq initialize_eq
  by (simp add: listTools_eq split: sum.splits)

lemma requests_differ: "list_request \<noteq> init_request"
  by (simp add: list_request_def init_request_def)

lemma discoverTools_returns: "\<exists>tools. fst (discoverTools net url verbose) = Inr tools"
  by (cases "discover_body net url verbose"; cases "fst (discover_body net url verbose)")
     (auto simp: discoverTools_def)

lemma discoverTools_raised:
  "fst (discover_body net url verbose) = Inl e \<Longrightarrow> fst (discoverTools net url verbose) = Inr []"
  by (cases "discover_body net url verbose") (auto simp: discoverTools_def)

lemma discoverTools_probe_first:
  "\<exists>rest. snd (discoverTools net url verbose) = Get (healthUrl url) # rest"
  by (auto simp: discoverTools_def discover_body_eq split: sum.splits)

lemma discoverTools_no_probe:
  "\<not> probe_ok net url \<Longrightarrow> discoverTools net url verbose = (Inr [], [Get (healthUrl url)])"
  by (simp add: discoverTools_def discover_body_eq)

lemma discoverTools_failed:
  "failed (http_post net init_request) \<or> failed (http_post net list_request)
   \<Longrightarrow> fst (discoverTools net url verbose) = Inr []"
  by (auto simp: discoverTools_def discover_body_eq sendRequest_failed split: sum.splits)

lemma discoverTools_no_list:
  "failed (http_post net init_request) \<Longrightarrow> Post list_request \<notin> set (snd (discoverTools net url verbose))"
  by (auto simp: discoverTools_def discover_body_eq sendRequest_failed requests_differ split: sum.splits)

lemma discoverTools_not_array:
  "sendRequest (http_post net list_request) = Inr r
   \<Longrightarrow> \<forall>ts. js_get (Some r) ''tools'' \<noteq> Inr (Some (JArr ts))
   \<Longrightarrow> fst (discoverTools net url verbose) = Inr []"
  by (auto simp: discoverTools_def discover_body_eq map_tools_def
           split: sum.splits option.splits json.splits)

text \<open>
  C6, as the code has it: \<open>discoverTools\<close> never raises; the availability
  probe is the first exchange it makes; when the probe is negative the result is
  the empty list and the probe is the only exchange made, so no handshake is
  attempted; when the probe is negative or one of the two requests fails (a
  network or HTTP error, a truthy JSON-RPC error, a body without result) the
  result is the empty list, and after a failed handshake the tools are not asked
  for; every error raised inside the body gives the empty list, as when the
  value of \<open>tools\<close> is not an array.
\<close>

theorem discoverTools_fail_soft:
  "(\<exists>tools. fst (discoverTools net url verbose) = Inr tools)
   \<and> (\<exists>rest. snd (discoverTools net url verbose) = Get (healthUrl url) # rest)
   \<and> fst (isServerAvailable net (new_McpClient url)) = probe_ok net url
   \<and> (\<not> probe_ok net url \<longrightarrow>
        discoverTools net url verbose = (Inr [], [Get (healthUrl url)]))
   \<and> (\<not> probe_ok net url
        \<or> failed (http_post net init_request)
        \<or> failed (http_post net list_request) \<longrightarrow>
        fst (discoverTools net url verbose) = Inr [])
   \<and> (failed (http_post net init_request) \<longrightarrow>
        Post list_request \<notin> set (snd (discoverTools net url verbose)))
   \<and> (fst (discover_body net url verbose) = Inl e \<longrightarrow>
        fst (discoverTools net url verbose) = Inr [])
   \<and> (sendRequest (http_post net list_request) = Inr r
        \<and> (\<forall>ts. js_get (Some r) ''tools'' \<noteq> Inr (Some (JArr ts))) \<longrightarrow>
        fst (discoverTools net url verbose) = Inr [])"
proof -
  have probe: "fst (isServerAvailable net (new_McpClient url)) = probe_ok net url"
    by (simp add: isServerAvailable_eq)
  have none: "\<not> probe_ok net url \<longrightarrow> fst (discoverTools net url verbose) = Inr []"
    by (simp add: discoverTools_no_probe)
  show ?thesis
    using discoverTools_returns [of net url verbose] discoverTools_probe_first [of net url verbose]
      probe discoverTools_no_probe [of net url verbose] none
      discoverTools_failed [of net url verbose] discoverTools_no_list [of net url verbose]
      discoverTools_raised [of net url verbose e] discoverTools_not_array [of net r url verbose]
    by blast
qed

theorem discoverTools_fail_soft_witness:
  "\<not> probe_ok dead_network ''http://localhost:8080/mcp''
   \<and> discoverTools dead_network ''http://localhost:8080/mcp'' False
       = (Inr [], [Get (healthUrl ''http://localhost:8080/mcp'')])
   \<and> failed (http_post broken_network init_request)
   \<and> fst (discoverTools broken_network ''http://localhost:8080/mcp'' False) = Inr []
   \<and> Post list_request \<notin> set (snd (discoverTools broken_network ''http://localhost:8080/mcp'' False))
   \<and> fst (discover_body sloppy_network ''http://localhost:8080/mcp'' True) = Inl TypeError
   \<and> fst (discoverTools sloppy_network ''http://localhost:8080/mcp'' True) = Inr []
   \<and> sendRequest (http_post garbled_network list_request) = Inr (JObj [(''tools'', JStr ''none'')])
   \<and> fst (discoverTools garbled_network ''http://localhost:8080/mcp'' False) = Inr []"
proof -
  have a: "\<not> probe_ok dead_network ''http://localhost:8080/mcp''"
    by (simp add: probe_ok_def dead_network_def)
  have b: "failed (http_post broken_network init_request)"
    by (simp add: broken_network_def init_request_def)
  have c: "fst (discover_body sloppy_network ''http://localhost:8080/mcp'' True) = Inl TypeError"
    by code_simp
  have d: "sendRequest (http_post garbled_network list_request) = Inr (JObj [(''tools'', JStr ''none'')])"
    by (simp add: garbled_network_def list_request_def tools_body_def sendRequest_def)
  have d': "\<forall>ts. js_get (Some (JObj [(''tools'', JStr ''none'')])) ''tools'' \<noteq> Inr (Some (JArr ts))"
    by simp
  note t1 = discoverTools_fail_soft [of dead_network "''http://localhost:8080/mcp''" False]
  note t2 = discoverTools_fail_soft [of broken_network "''http://localhost:8080/mcp''" False]
  note t3 = discoverTools_fail_soft [of sloppy_network "''http://localhost:8080/mcp''" True TypeError]
  note t4 = discoverTools_fail_soft [of garbled_network "''http://localhost:8080/mcp''" False _
      "JObj [(''tools'', JStr ''none'')]"]
  have r1: "discoverTools dead_network ''http://localhost:8080/mcp'' False
       = (Inr [], [Get (healthUrl ''http://localhost:8080/mcp'')])"
    using t1 a by blast
  have r2: "fst (discoverTools broken_network ''http://localhost:8080/mcp'' False) = Inr []"
    using t2 b by blast
  have r2': "Post list_request \<notin> set (snd (discoverTools broken_network ''http://localhost:8080/mcp'' False))"
    using t2 b by blast
  have r3: "fst (discoverTools sloppy_network ''http://localhost:8080/mcp'' True) = Inr []"
    using t3 c by blast
  have r4: "fst (discoverTools garbled_network ''http://localhost:8080/mcp'' False) = Inr []"
    using t4 d d' by blast
  from a r1 b r2 r2' c r3 d r4 show ?thesis by (intro conjI)
qed

text \<open>
  The claim as stated fails for a malformed response. The handshake is answered
  with the result \<open>null\<close> and the list of tools holds an empty object: neither is
  checked, and without \<open>verbose\<close> the discovery returns one adapter, with no
  name, instead of the empty list.
\<close>

theorem discoverTools_malformed_counterexample:
  "sendRequest (http_post sloppy_network init_request) = Inr JNull
   \<and> fst (discoverTools sloppy_network ''http://localhost:8080/mcp'' False)
       = Inr [McpToolAdapter None None None \<lparr>serverUrl = ''http://localhost:8080/mcp'', requestId = 2\<rparr>]
   \<and> fst (discoverTools sloppy_network ''http://localhost:8080/mcp'' False) \<noteq> Inr []"
  by code_simp


section \<open>Properties of the orchestration loop\<close>

text \<open>Every tool call, whatever happens to it, appends one tool message with the call's id.\<close>

lemma execute_call_shape:
  "\<exists>text w'. execute_call agent st c =
      st\<lparr>messages := messages st @ [tool_message (call_id c) text], world := w'\<rparr>"
proof (cases "toolMap agent (function_name c)")
  case None
  then have "execute_call agent st c =
      st\<lparr>messages := messages st
              @ [tool_message (call_id c) (''ERROR: Tool '' @ [CHR 0x27] @ function_name c @ [CHR 0x27] @ '' not found'')],
         world := world st\<rparr>"
    by (simp add: execute_call_def push_def)
  then show ?thesis by blast
next
  case (Some t)
  show ?thesis
  proof (cases "json_parse agent (function_arguments c)")
    case (Inl e)
    with Some have "execute_call agent st c =
      st\<lparr>messages := messages st @ [tool_message (call_id c) (''ERROR: '' @ e)], world := world st\<rparr>"
      by (simp add: execute_call_def push_def)
    then show ?thesis by blast
  next
    case (Inr args)
    obtain res w' where ex: "execute t args (world st) = (res, w')"
      by (cases "execute t args (world st)") auto
    show ?thesis
    proof (cases res)
      case (Inl e)
      with Some Inr ex have "execute_call agent st c =
        st\<lparr>messages := messages st @ [tool_message (call_id c) (''ERROR: '' @ e)], world := w'\<rparr>"
        by (simp add: execute_call_def push_def)
      then show ?thesis by blast
    next
      case (Inr r)
      with Some \<open>json_parse agent (function_arguments c) = Inr args\<close> ex
      have "execute_call agent st c =
        st\<lparr>messages := messages st @ [tool_message (call_id c) r], world := w'\<rparr>"
        by (simp add: execute_call_def push_def)
      then show ?thesis by blast
    qed
  qed
qed

lemma executeToolCalls_Cons:
  "executeToolCalls agent (c # cs) st = executeToolCalls agent cs (execute_call agent st c)"
  by (simp add: executeToolCalls_def)

lemma executeToolCalls_append:
  "executeToolCalls agent (cs1 @ cs2) st = executeToolCalls agent cs2 (executeToolCalls agent cs1 st)"
  by (simp add: executeToolCalls_def)

lemma executeToolCalls_shape:
  "\<exists>results. messages (executeToolCalls agent toolCalls st) = messages st @ results
      \<and> length results = length toolCalls
      \<and> map tool_call_id results = map (\<lambda>c. Some (call_id c)) toolCalls
      \<and> list_all (\<lambda>m. msg_role m = tool) results"
proof (induction toolCalls arbitrary: st)
  case Nil
  then show ?case by (simp add: executeToolCalls_def)
next
  case (Cons c cs)
  obtain body w' where st1: "execute_call agent st c =
      st\<lparr>messages := messages st @ [tool_message (call_id c) body], world := w'\<rparr>"
    using execute_call_shape [of agent st c] by blast
  obtain results where r: "messages (executeToolCalls agent cs (execute_call agent st c))
        = messages (execute_call agent st c) @ results"
      "length results = length cs"
      "map tool_call_id results = map (\<lambda>c. Some (call_id c)) cs"
      "list_all (\<lambda>m. msg_role m = tool) results"
    using Cons.IH [of "execute_call agent st c"] by blast
  let ?rs = "tool_message (call_id c) body # results"
  have "messages (executeToolCalls agent (c # cs) st) = messages st @ ?rs"
    using r(1) st1 by (simp add: executeToolCalls_Cons)
  moreover have "length ?rs = length (c # cs)" using r(2) by simp
  moreover have "map tool_call_id ?rs = map (\<lambda>c. Some (call_id c)) (c # cs)"
    using r(3) by (simp add: tool_message_def)
  moreover have "list_all (\<lambda>m. msg_role m = tool) ?rs"
    using r(4) by (simp add: tool_message_def)
  ultimately show ?case by blast
qed

text \<open>The three ways an iteration can end, read off the completion it received.\<close>

lemma iteration_calls:
  "create_completion agent (messages st) (world st) = (AssistantMessage text (Some (c # cs)), w') \<Longrightarrow>
   iteration agent st =
     Continue (executeToolCalls agent (c # cs) (push (assistant_message text (Some (c # cs))) (st\<lparr>world := w'\<rparr>)))"
  by (simp add: iteration_def assistant_message_def Let_def)

lemma iteration_Return:
  "iteration agent st = Return text st' \<longleftrightarrow>
     (\<exists>t calls w'. create_completion agent (messages st) (world st) = (AssistantMessage t calls, w')
        \<and> no_calls calls \<and> text = or_empty t
        \<and> st' = push (assistant_message t calls) (st\<lparr>world := w'\<rparr>))"
  by (auto simp: iteration_def assistant_message_def no_calls_def Let_def
           split: prod.splits completion.splits option.splits list.splits)

lemma iteration_Continue:
  "iteration agent st = Continue st' \<longleftrightarrow>
     (\<exists>t c cs w'. create_completion agent (messages st) (world st) = (AssistantMessage t (Some (c # cs)), w')
        \<and> st' = executeToolCalls agent (c # cs) (push (assistant_message t (Some (c # cs))) (st\<lparr>world := w'\<rparr>)))"
  by (auto simp: iteration_def assistant_message_def Let_def
           split: prod.splits completion.splits option.splits list.splits)

lemma iteration_Throw:
  "iteration agent st = Throw e st' \<longleftrightarrow>
     (\<exists>w'. st' = st\<lparr>world := w'\<rparr> \<and>
        ((e = NoMessageInCompletion \<and> create_completion agent (messages st) (world st) = (NoMessage, w'))
         \<or> (\<exists>msg. e = CompletionFailed msg
               \<and> create_completion agent (messages st) (world st) = (ServiceFailure msg, w'))))"
  by (auto simp: iteration_def Let_def
           split: prod.splits completion.splits option.splits list.splits)

text \<open>
  The loop against the rounds: the first iteration that does not dispatch tool
  calls decides the outcome, if it comes within the limit.
\<close>

lemma rounds_unfold:
  "(\<exists>n < Suc k. \<exists>s. after_rounds agent n st = Some s \<and> Q (iteration agent s)) \<longleftrightarrow>
     Q (iteration agent st)
     \<or> (\<exists>st1. iteration agent st = Continue st1
           \<and> (\<exists>n < k. \<exists>s. after_rounds agent n st1 = Some s \<and> Q (iteration agent s)))"
proof
  assume "\<exists>n < Suc k. \<exists>s. after_rounds agent n st = Some s \<and> Q (iteration agent s)"
  then obtain n s where n: "n < Suc k" "after_rounds agent n st = Some s" "Q (iteration agent s)"
    by blast
  show "Q (iteration agent st)
     \<or> (\<exists>st1. iteration agent st = Continue st1
           \<and> (\<exists>n < k. \<exists>s. after_rounds agent n st1 = Some s \<and> Q (iteration agent s)))"
  proof (cases n)
    case 0
    with n show ?thesis by simp
  next
    case (Suc m)
    with n obtain st1 where "iteration agent st = Continue st1" "after_rounds agent m st1 = Some s"
      by (cases "iteration agent st") simp_all
    with n Suc show ?thesis by auto
  qed
next
  assume "Q (iteration agent st)
     \<or> (\<exists>st1. iteration agent st = Continue st1
           \<and> (\<exists>n < k. \<exists>s. after_rounds agent n st1 = Some s \<and> Q (iteration agent s)))"
  then show "\<exists>n < Suc k. \<exists>s. after_rounds agent n st = Some s \<and> Q (iteration agent s)"
  proof
    assume "Q (iteration agent st)"
    then have "0 < Suc k \<and> after_rounds agent 0 st = Some st \<and> Q (iteration agent st)" by simp
    then show ?thesis by blast
  next
    assume "\<exists>st1. iteration agent st = Continue st1
           \<and> (\<exists>n < k. \<exists>s. after_rounds agent n st1 = Some s \<and> Q (iteration agent s))"
    then obtain st1 n s where "iteration agent st = Continue st1" "n < k"
      "after_rounds agent n st1 = Some s" "Q (iteration agent s)" by blast
    then have "Suc n < Suc k \<and> after_rounds agent (Suc n) st = Some s \<and> Q (iteration agent s)"
      by simp
    then show ?thesis by blast
  qed
qed

lemma run_loop_Return:
  "fst (run_loop agent it st) = Inr text \<longleftrightarrow>
     (\<exists>n < nat (maxIterations agent - it). \<exists>s.
         after_rounds agent n st = Some s \<and> (\<exists>s'. iteration agent s = Return text s'))"
proof (induction "nat (maxIterations agent - it)" arbitrary: it st)
  case 0
  then show ?case by (simp add: run_loop.simps [of agent it st])
next
  case (Suc k)
  then have lt: "it < maxIterations agent" and k: "k = nat (maxIterations agent - (it + 1))"
    by linarith+
  have bound: "nat (maxIterations agent - it) = Suc k" using Suc.hyps(2) by simp
  note IH = Suc.hyps(1) [OF k, folded k]
  have ru: "(\<exists>n < Suc k. \<exists>s. after_rounds agent n st = Some s \<and> (\<exists>s'. iteration agent s = Return text s'))
     \<longleftrightarrow> (\<exists>s'. iteration agent st = Return text s')
       \<or> (\<exists>st1. iteration agent st = Continue st1
           \<and> (\<exists>n < k. \<exists>s. after_rounds agent n st1 = Some s \<and> (\<exists>s'. iteration agent s = Return text s')))"
    using rounds_unfold [of k agent st "\<lambda>x. \<exists>s'. x = Return text s'"] by simp
  show ?case
    unfolding bound ru
    using lt IH by (cases "iteration agent st") (auto simp: run_loop.simps [of agent it st])
qed

lemma run_loop_Throw:
  assumes "\<And>m. e \<noteq> MaxIterationsReached m"
  shows "fst (run_loop agent it st) = Inl e \<longleftrightarrow>
     (\<exists>n < nat (maxIterations agent - it). \<exists>s.
         after_rounds agent n st = Some s \<and> (\<exists>s'. iteration agent s = Throw e s'))"
proof (induction "nat (maxIterations agent - it)" arbitrary: it st)
  case 0
  then show ?case using assms [of "maxIterations agent"]
    by (auto simp: run_loop.simps [of agent it st])
next
  case (Suc k)
  then have lt: "it < maxIterations agent" and k: "k = nat (maxIterations agent - (it + 1))"
    by linarith+
  have bound: "nat (maxIterations agent - it) = Suc k" using Suc.hyps(2) by simp
  note IH = Suc.hyps(1) [OF k, folded k]
  have ru: "(\<exists>n < Suc k. \<exists>s. after_rounds agent n st = Some s \<and> (\<exists>s'. iteration agent s = Throw e s'))
     \<longleftrightarrow> (\<exists>s'. iteration agent st = Throw e s')
       \<or> (\<exists>st1. iteration agent st = Continue st1
           \<and> (\<exists>n < k. \<exists>s. after_rounds agent n st1 = Some s \<and> (\<exists>s'. iteration agent s = Throw e s')))"
    using rounds_unfold [of k agent st "\<lambda>x. \<exists>s'. x = Throw e s'"] by simp
  show ?case
    unfolding bound ru
    using lt IH by (cases "iteration agent st") (auto simp: run_loop.simps [of agent it st])
qed

lemma iteration_no_limit: "iteration agent st \<noteq> Throw (MaxIterationsReached m) st'"
  using iteration_Throw [of agent st "MaxIterationsReached m" st'] by simp

lemma run_loop_limit:
  "fst (run_loop agent it st) = Inl (MaxIterationsReached m) \<longleftrightarrow>
     m = maxIterations agent \<and> after_rounds agent (nat (maxIterations agent - it)) st \<noteq> None"
proof (induction "nat (maxIterations agent - it)" arbitrary: it st)
  case 0
  then show ?case by (auto simp: run_loop.simps [of agent it st])
next
  case (Suc k)
  then have lt: "it < maxIterations agent" and k: "k = nat (maxIterations agent - (it + 1))"
    by linarith+
  have bound: "nat (maxIterations agent - it) = Suc k" using Suc.hyps(2) by simp
  note IH = Suc.hyps(1) [OF k, folded k]
  show ?case
    unfolding bound
    using lt IH iteration_no_limit [of agent st m]
    by (cases "iteration agent st") (auto simp: run_loop.simps [of agent it st])
qed


text \<open>
  C3: executing the tool calls of an assistant message appends to the
  conversation exactly one message per call, each a tool message carrying the id
  of its call, in the order of the calls, and nothing else. The calls are
  dispatched one after the other: the calls after the first run in the state the
  first one left, and a list of calls in two parts is the first part followed by
  the second. In the loop, an assistant message with at least one tool call is
  followed in the conversation by exactly these results.
\<close>

theorem tool_results_follow_requests:
  "(\<exists>results. messages (executeToolCalls agent toolCalls st) = messages st @ results
      \<and> length results = length toolCalls
      \<and> map tool_call_id results = map (\<lambda>c. Some (call_id c)) toolCalls
      \<and> list_all (\<lambda>m. msg_role m = tool) results)
   \<and> executeToolCalls agent (c # cs) st = executeToolCalls agent cs (execute_call agent st c)
   \<and> executeToolCalls agent (cs1 @ cs2) st = executeToolCalls agent cs2 (executeToolCalls agent cs1 st)
   \<and> (create_completion agent (messages st) (world st) = (AssistantMessage t (Some (c # cs)), w') \<longrightarrow>
        (\<exists>st' results. iteration agent st = Continue st'
           \<and> messages st' = messages st @ [assistant_message t (Some (c # cs))] @ results
           \<and> length results = length (c # cs)
           \<and> map tool_call_id results = map (\<lambda>c. Some (call_id c)) (c # cs)
           \<and> list_all (\<lambda>m. msg_role m = tool) results))"
proof -
  have loop: "create_completion agent (messages st) (world st) = (AssistantMessage t (Some (c # cs)), w') \<longrightarrow>
        (\<exists>st' results. iteration agent st = Continue st'
           \<and> messages st' = messages st @ [assistant_message t (Some (c # cs))] @ results
           \<and> length results = length (c # cs)
           \<and> map tool_call_id results = map (\<lambda>c. Some (call_id c)) (c # cs)
           \<and> list_all (\<lambda>m. msg_role m = tool) results)"
  proof
    assume cc: "create_completion agent (messages st) (world st) = (AssistantMessage t (Some (c # cs)), w')"
    let ?st1 = "push (assistant_message t (Some (c # cs))) (st\<lparr>world := w'\<rparr>)"
    obtain results where r:
      "messages (executeToolCalls agent (c # cs) ?st1) = messages ?st1 @ results"
      "length results = length (c # cs)"
      "map tool_call_id results = map (\<lambda>c. Some (call_id c)) (c # cs)"
      "list_all (\<lambda>m. msg_role m = tool) results"
      using executeToolCalls_shape [of agent "c # cs" ?st1] by blast
    have "iteration agent st = Continue (executeToolCalls agent (c # cs) ?st1)"
      using cc by (rule iteration_calls)
    moreover have "messages (executeToolCalls agent (c # cs) ?st1)
        = messages st @ [assistant_message t (Some (c # cs))] @ results"
      using r(1) by (simp add: push_def)
    ultimately show "\<exists>st' results. iteration agent st = Continue st'
           \<and> messages st' = messages st @ [assistant_message t (Some (c # cs))] @ results
           \<and> length results = length (c # cs)
           \<and> map tool_call_id results = map (\<lambda>c. Some (call_id c)) (c # cs)
           \<and> list_all (\<lambda>m. msg_role m = tool) results"
      using r(2,3,4) by blast
  qed
  show ?thesis
    using executeToolCalls_shape [of agent toolCalls st] executeToolCalls_Cons [of agent c cs st]
      executeToolCalls_append [of agent cs1 cs2 st] loop
    by blast
qed

theorem tool_results_follow_requests_witness:
  "create_completion example_agent (messages (initial_state ''sys'' (0::nat))) (world (initial_state ''sys'' (0::nat)))
     = (AssistantMessage None (Some example_calls), 1)
   \<and> (\<exists>st' results. iteration example_agent (initial_state ''sys'' (0::nat)) = Continue st'
         \<and> messages st' = messages (initial_state ''sys'' (0::nat))
              @ [assistant_message None (Some example_calls)] @ results
         \<and> length results = length example_calls
         \<and> map tool_call_id results = map (\<lambda>c. Some (call_id c)) example_calls
         \<and> list_all (\<lambda>m. msg_role m = tool) results)"
proof -
  have e: "example_calls = \<lparr>call_id = ''c1'', function_name = ''echo'', function_arguments = ''x''\<rparr>
          # [\<lparr>call_id = ''c2'', function_name = ''foo'', function_arguments = ''y''\<rparr>,
             \<lparr>call_id = ''c3'', function_name = ''boom'', function_arguments = ''z''\<rparr>]"
    by (simp add: example_calls_def)
  have a: "create_completion example_agent (messages (initial_state ''sys'' (0::nat)))
             (world (initial_state ''sys'' (0::nat)))
     = (AssistantMessage None (Some example_calls), 1)"
    by (simp add: example_agent_def new_AIAgent_def example_service_def initial_state_def)
  note imp = tool_results_follow_requests
        [where agent = example_agent and st = "initial_state ''sys'' (0::nat)" and t = None
           and c = "\<lparr>call_id = ''c1'', function_name = ''echo'', function_arguments = ''x''\<rparr>"
           and cs = "[\<lparr>call_id = ''c2'', function_name = ''foo'', function_arguments = ''y''\<rparr>,
             \<lparr>call_id = ''c3'', function_name = ''boom'', function_arguments = ''z''\<rparr>]"
           and w' = 1, THEN conjunct2, THEN conjunct2, THEN conjunct2, folded e]
  from imp a have "\<exists>st' results. iteration example_agent (initial_state ''sys'' (0::nat)) = Continue st'
         \<and> messages st' = messages (initial_state ''sys'' (0::nat))
              @ [assistant_message None (Some example_calls)] @ results
         \<and> length results = length example_calls
         \<and> map tool_call_id results = map (\<lambda>c. Some (call_id c)) example_calls
         \<and> list_all (\<lambda>m. msg_role m = tool) results"
    by blast
  with a show ?thesis by blast
qed



text \<open>
  C2, as the code has it: \<open>run\<close> returns a text exactly when, within
  \<open>maxIterations\<close> iterations (20 when the configuration gives none), the first
  iteration that does not dispatch tool calls receives an assistant message
  without tool calls, and the text is that message's content; it raises the
  iteration-limit error exactly when each of the \<open>maxIterations\<close> iterations
  dispatched tool calls; and it raises two other errors: "no message in
  completion" when the first iteration that does not dispatch tool calls
  receives a completion without a message, and the failure of the completion
  service when that request fails.
\<close>

theorem run_outcomes:
  "(fst (run agent userInput st) = Inr text \<longleftrightarrow>
      (\<exists>n < nat (maxIterations agent). \<exists>s.
          after_rounds agent n (push (user_message userInput) st) = Some s
          \<and> (\<exists>s'. iteration agent s = Return text s')))
   \<and> (fst (run agent userInput st) = Inl (MaxIterationsReached m) \<longleftrightarrow>
        m = maxIterations agent
        \<and> after_rounds agent (nat (maxIterations agent)) (push (user_message userInput) st) \<noteq> None)
   \<and> (fst (run agent userInput st) = Inl NoMessageInCompletion \<longleftrightarrow>
        (\<exists>n < nat (maxIterations agent). \<exists>s.
            after_rounds agent n (push (user_message userInput) st) = Some s
            \<and> (\<exists>s'. iteration agent s = Throw NoMessageInCompletion s')))
   \<and> (fst (run agent userInput st) = Inl (CompletionFailed msg) \<longleftrightarrow>
        (\<exists>n < nat (maxIterations agent). \<exists>s.
            after_rounds agent n (push (user_message userInput) st) = Some s
            \<and> (\<exists>s'. iteration agent s = Throw (CompletionFailed msg) s')))
   \<and> (iteration agent s1 = Return text s2 \<longleftrightarrow>
        (\<exists>t calls w'. create_completion agent (messages s1) (world s1) = (AssistantMessage t calls, w')
           \<and> no_calls calls \<and> text = or_empty t
           \<and> s2 = push (assistant_message t calls) (s1\<lparr>world := w'\<rparr>)))
   \<and> (iteration agent s1 = Continue s2 \<longleftrightarrow>
        (\<exists>t c cs w'. create_completion agent (messages s1) (world s1)
             = (AssistantMessage t (Some (c # cs)), w')
           \<and> s2 = executeToolCalls agent (c # cs)
                    (push (assistant_message t (Some (c # cs))) (s1\<lparr>world := w'\<rparr>))))
   \<and> (iteration agent s1 = Throw NoMessageInCompletion s2 \<longleftrightarrow>
        (\<exists>w'. create_completion agent (messages s1) (world s1) = (NoMessage, w')
           \<and> s2 = s1\<lparr>world := w'\<rparr>))
   \<and> maxIterations (new_AIAgent None tools service parse) = 20
   \<and> maxIterations (new_AIAgent (Some 0) tools service parse) = 20"
proof -
  have nm: "iteration agent s1 = Throw NoMessageInCompletion s2 \<longleftrightarrow>
        (\<exists>w'. create_completion agent (messages s1) (world s1) = (NoMessage, w')
           \<and> s2 = s1\<lparr>world := w'\<rparr>)"
    using iteration_Throw [of agent s1 NoMessageInCompletion s2] by auto
  have d: "maxIterations (new_AIAgent None tools service parse) = 20"
    "maxIterations (new_AIAgent (Some 0) tools service parse) = 20"
    by (simp_all add: new_AIAgent_def)
  show ?thesis
    unfolding run_def
    using run_loop_Return [of agent 0 "push (user_message userInput) st" "text"]
      run_loop_limit [of agent 0 "push (user_message userInput) st" m]
      run_loop_Throw [of NoMessageInCompletion agent 0 "push (user_message userInput) st"]
      run_loop_Throw [of "CompletionFailed msg" agent 0 "push (user_message userInput) st"]
      iteration_Return [of agent s1 "text" s2] iteration_Continue [of agent s1 s2] nm d
    by simp
qed

theorem run_outcomes_witness:
  "fst (run example_agent ''hi'' (initial_state ''sys'' (0::nat))) = Inr ''done''
   \<and> (\<exists>n < nat (maxIterations example_agent). \<exists>s.
          after_rounds example_agent n (push (user_message ''hi'') (initial_state ''sys'' (0::nat))) = Some s
          \<and> (\<exists>s'. iteration example_agent s = Return ''done'' s'))
   \<and> fst (run silent_agent ''hi'' (initial_state ''sys'' (0::nat))) = Inl NoMessageInCompletion
   \<and> (\<exists>n < nat (maxIterations silent_agent). \<exists>s.
          after_rounds silent_agent n (push (user_message ''hi'') (initial_state ''sys'' (0::nat))) = Some s
          \<and> (\<exists>s'. iteration silent_agent s = Throw NoMessageInCompletion s'))
   \<and> fst (run busy_agent ''hi'' (initial_state ''sys'' (0::nat))) = Inl (MaxIterationsReached 2)
   \<and> (2 = maxIterations busy_agent
        \<and> after_rounds busy_agent (nat (maxIterations busy_agent))
              (push (user_message ''hi'') (initial_state ''sys'' (0::nat))) \<noteq> None)"
proof -
  have a: "fst (run example_agent ''hi'' (initial_state ''sys'' (0::nat))) = Inr ''done''"
    by code_simp
  have b: "fst (run silent_agent ''hi'' (initial_state ''sys'' (0::nat))) = Inl NoMessageInCompletion"
    by code_simp
  have c: "fst (run busy_agent ''hi'' (initial_state ''sys'' (0::nat))) = Inl (MaxIterationsReached 2)"
    by code_simp
  note r1 = run_outcomes [of example_agent "''hi''" "initial_state ''sys'' (0::nat)" "''done''",
      THEN conjunct1, THEN iffD1, OF a]
  note r2 = run_outcomes [of busy_agent "''hi''" "initial_state ''sys'' (0::nat)" _ 2,
      THEN conjunct2, THEN conjunct1, THEN iffD1, OF c]
  note r3 = run_outcomes [of silent_agent "''hi''" "initial_state ''sys'' (0::nat)",
      THEN conjunct2, THEN conjunct2, THEN conjunct1, THEN iffD1, OF b]
  from a r1 b r3 c r2 [THEN conjunct1] r2 [THEN conjunct2] show ?thesis by (intro conjI)
qed

text \<open>
  The claim as stated fails: the agent whose completion service returns a
  completion without a message raises "no message in completion" in its first
  iteration, an error that is not the iteration-limit error.
\<close>

theorem run_only_error_counterexample:
  "fst (run silent_agent ''hi'' (initial_state ''sys'' (0::nat))) = Inl NoMessageInCompletion
   \<and> fst (run silent_agent ''hi'' (initial_state ''sys'' (0::nat)))
       \<noteq> Inl (MaxIterationsReached (maxIterations silent_agent))
   \<and> maxIterations silent_agent = 20"
  by code_simp


end
